theory Spec2Isabelle
  imports Complex_Main
begin

section \<open>The enclosing-wall overlay of robocasa: scene graph and geometry resolver\<close>

text \<open>
  This theory embeds \<^verbatim>\<open>robocasa/wrappers/enclosing_wall_render_wrapper.py\<close>.
  The MuJoCo model object (\<^verbatim>\<open>sim.model\<close>) is a record of exactly the attributes the
  wrapper reads: the counts \<^verbatim>\<open>nbody\<close> and \<^verbatim>\<open>ngeom\<close>, the name lookups
  (\<^verbatim>\<open>None\<close> for an unnamed element), the parent and owner index arrays, and the alpha
  column \<^verbatim>\<open>geom_rgba[:, 3]\<close>. The field \<open>ptr\<close> stands for \<^verbatim>\<open>id(model)\<close>, the identity of
  the Python object. Arrays are functions on indices; the arrays of a MuJoCo model have
  \<^verbatim>\<open>nbody\<close> and \<^verbatim>\<open>ngeom\<close> rows, so an access is in range exactly when the index is
  below the count, and the accesses that can leave the range are checked explicitly below.
  Alpha values are reals. The buffer \<^verbatim>\<open>geom_rgba\<close> holds single-precision numbers, so a
  value written to it is rounded to the nearest one (see \<open>to_float32\<close> below); reading
  an entry back into a Python \<^verbatim>\<open>float\<close> is exact.
\<close>

record model =
  ptr :: nat
  nbody :: nat
  body_id2name :: "nat \<Rightarrow> string option"
  body_parentid :: "nat \<Rightarrow> int"
  ngeom :: nat
  geom_bodyid :: "nat \<Rightarrow> int"
  geom_id2name :: "nat \<Rightarrow> string option"
  geom_alpha :: "nat \<Rightarrow> real"

subsection \<open>Name matching\<close>

text \<open>Python's \<^verbatim>\<open>str.startswith\<close> and \<^verbatim>\<open>str.endswith\<close>, by slices.\<close>

definition startswith :: "string \<Rightarrow> string \<Rightarrow> bool" where
  "startswith s p = (take (length p) s = p)"

definition endswith :: "string \<Rightarrow> string \<Rightarrow> bool" where
  "endswith s p = (length p \<le> length s \<and> drop (length s - length p) s = p)"

text \<open>
  The condition of the two \<^verbatim>\<open>if\<close> statements in \<^verbatim>\<open>_match_geom_ids\<close> (lines 229-233 for
  bodies, 259-263 for geometries): the same three tests on a name and a wall name.
\<close>

definition name_matches :: "string \<Rightarrow> string \<Rightarrow> bool" where
  "name_matches s ename =
     (s = ename \<or> startswith s (ename @ ''_'') \<or> endswith s (''_'' @ ename))"

text \<open>The inner loop \<^verbatim>\<open>for ename in enclosing_names: if ...: ...; break\<close>.\<close>

fun matches_any :: "string \<Rightarrow> string list \<Rightarrow> bool" where
  "matches_any s [] = False"
| "matches_any s (ename # enames) =
     (if name_matches s ename then True else matches_any s enames)"

text \<open>
  The first loop of \<^verbatim>\<open>_match_geom_ids\<close>, over \<^verbatim>\<open>range(model.nbody)\<close>: a body without a
  name is skipped, a body whose name matches some wall name is added to \<^verbatim>\<open>body_ids\<close>.
\<close>

fun collect_bodies :: "model \<Rightarrow> string list \<Rightarrow> nat list \<Rightarrow> int set \<Rightarrow> int set" where
  "collect_bodies m enames [] body_ids = body_ids"
| "collect_bodies m enames (b # bs) body_ids =
     (case body_id2name m b of
        None \<Rightarrow> collect_bodies m enames bs body_ids
      | Some body_name \<Rightarrow>
          if matches_any body_name enames
          then collect_bodies m enames bs (insert (int b) body_ids)
          else collect_bodies m enames bs body_ids)"

subsection \<open>Descendant closure\<close>

text \<open>
  One execution of the \<^verbatim>\<open>for b in range(model.nbody)\<close> loop inside \<^verbatim>\<open>while added\<close>
  (lines 241-247). The set is updated in place, so a body added early in a pass is seen
  by the bodies scanned after it.
\<close>

fun closure_pass :: "model \<Rightarrow> nat list \<Rightarrow> int set \<Rightarrow> bool \<Rightarrow> int set \<times> bool" where
  "closure_pass m [] body_ids added = (body_ids, added)"
| "closure_pass m (b # bs) body_ids added =
     (if int b \<in> body_ids then closure_pass m bs body_ids added
      else
        let parent = body_parentid m b in
        if parent \<ge> 0 \<and> parent \<in> body_ids
        then closure_pass m bs (insert (int b) body_ids) True
        else closure_pass m bs body_ids added)"

lemma closure_pass_mono: "body_ids \<subseteq> fst (closure_pass m bs body_ids added)"
proof (induction bs arbitrary: body_ids added)
  case Nil
  show ?case by simp
next
  case (Cons b bs)
  have "body_ids \<subseteq> insert (int b) body_ids" by blast
  also have "\<dots> \<subseteq> fst (closure_pass m bs (insert (int b) body_ids) True)"
    by (rule Cons.IH)
  finally show ?case
    using Cons.IH [of body_ids added] by (simp add: Let_def)
qed

lemma closure_pass_upper:
  "fst (closure_pass m bs body_ids added) \<subseteq> body_ids \<union> int ` set bs"
  by (induction bs arbitrary: body_ids added) (auto simp: Let_def split: if_splits)

lemma closure_pass_flag:
  "snd (closure_pass m bs body_ids added) =
     (added \<or> fst (closure_pass m bs body_ids added) \<noteq> body_ids)"
proof (induction bs arbitrary: body_ids added)
  case Nil
  show ?case by simp
next
  case (Cons b bs)
  show ?case
  proof (cases "int b \<notin> body_ids \<and> body_parentid m b \<ge> 0 \<and> body_parentid m b \<in> body_ids")
    case True
    have "insert (int b) body_ids \<subseteq> fst (closure_pass m bs (insert (int b) body_ids) True)"
      by (rule closure_pass_mono)
    with True have "fst (closure_pass m bs (insert (int b) body_ids) True) \<noteq> body_ids"
      by auto
    with True Cons.IH [of "insert (int b) body_ids" True] show ?thesis
      by (simp add: Let_def)
  next
    case False
    with Cons.IH [of body_ids added] show ?thesis
      by (auto simp: Let_def)
  qed
qed

lemma closure_pass_grows:
  assumes "closure_pass m [0..<nbody m] body_ids False = (body_ids', True)"
  shows "card (body_ids \<inter> {0..<int (nbody m)}) < card (body_ids' \<inter> {0..<int (nbody m)})"
proof -
  have sub: "body_ids \<subseteq> body_ids'"
    using closure_pass_mono [of body_ids m "[0..<nbody m]" False] assms by simp
  have up: "body_ids' \<subseteq> body_ids \<union> int ` set [0..<nbody m]"
    using closure_pass_upper [of m "[0..<nbody m]" body_ids False] assms by simp
  have ne: "body_ids' \<noteq> body_ids"
    using closure_pass_flag [of m "[0..<nbody m]" body_ids False] assms by simp
  from sub ne obtain x where x: "x \<in> body_ids'" "x \<notin> body_ids" by blast
  with up have "x \<in> int ` set [0..<nbody m]" by blast
  then have "x \<in> {0..<int (nbody m)}" by auto
  with x sub have "body_ids \<inter> {0..<int (nbody m)} \<subset> body_ids' \<inter> {0..<int (nbody m)}"
    by blast
  then show ?thesis
    by (intro psubset_card_mono) auto
qed

lemma card_in_range: "card (body_ids \<inter> {0..<int n}) \<le> n"
proof -
  have "card (body_ids \<inter> {0..<int n}) \<le> card {0..<int n}"
    by (intro card_mono) auto
  then show ?thesis by simp
qed

text \<open>
  The loop \<^verbatim>\<open>added = True; while added: added = False; for ...\<close> (lines 238-247): a pass
  is run, and the loop goes round again exactly when the pass set the flag.
\<close>

function add_descendants :: "model \<Rightarrow> int set \<Rightarrow> int set" where
  "add_descendants m body_ids =
     (case closure_pass m [0..<nbody m] body_ids False of
        (body_ids', added) \<Rightarrow> if added then add_descendants m body_ids' else body_ids')"
  by pat_completeness auto
termination
proof (relation "measure (\<lambda>(m, body_ids). nbody m - card (body_ids \<inter> {0..<int (nbody m)}))",
    goal_cases)
  case 1
  show ?case by simp
next
  case (2 m body_ids body_ids' added)
  then have "closure_pass m [0..<nbody m] body_ids False = (body_ids', True)"
    by simp
  from closure_pass_grows [OF this] card_in_range [of body_ids' "nbody m"]
  show ?case by simp
qed

text \<open>
  The number of passes the loop makes, counted along the same recursion (a ghost of
  \<open>add_descendants\<close>: the source keeps no such counter).
\<close>

function closure_passes :: "model \<Rightarrow> int set \<Rightarrow> nat" where
  "closure_passes m body_ids =
     (case closure_pass m [0..<nbody m] body_ids False of
        (body_ids', added) \<Rightarrow> if added then Suc (closure_passes m body_ids') else Suc 0)"
  by pat_completeness auto
termination
proof (relation "measure (\<lambda>(m, body_ids). nbody m - card (body_ids \<inter> {0..<int (nbody m)}))",
    goal_cases)
  case 1
  show ?case by simp
next
  case (2 m body_ids body_ids' added)
  then have "closure_pass m [0..<nbody m] body_ids False = (body_ids', True)"
    by simp
  from closure_pass_grows [OF this] card_in_range [of body_ids' "nbody m"]
  show ?case by simp
qed

subsection \<open>Geometry matching\<close>

text \<open>
  The last loop of \<^verbatim>\<open>_match_geom_ids\<close>, over \<^verbatim>\<open>range(model.ngeom)\<close> (lines 250-265): a
  geometry is appended when its owning body is in \<^verbatim>\<open>body_ids\<close>, and otherwise when it
  has a name that matches a wall name.
\<close>

fun collect_geoms :: "model \<Rightarrow> string list \<Rightarrow> int set \<Rightarrow> nat list \<Rightarrow> nat list" where
  "collect_geoms m enames body_ids [] = []"
| "collect_geoms m enames body_ids (i # is) =
     (if geom_bodyid m i \<in> body_ids then i # collect_geoms m enames body_ids is
      else case geom_id2name m i of
        None \<Rightarrow> collect_geoms m enames body_ids is
      | Some gname \<Rightarrow>
          if matches_any gname enames then i # collect_geoms m enames body_ids is
          else collect_geoms m enames body_ids is)"

definition match_body_ids :: "model \<Rightarrow> string list \<Rightarrow> int set" where
  "match_body_ids m enclosing_names =
     add_descendants m (collect_bodies m enclosing_names [0..<nbody m] {})"

definition match_geom_ids :: "model \<Rightarrow> string list \<Rightarrow> nat list" where
  "match_geom_ids m enclosing_names =
     (if enclosing_names = [] then []
      else collect_geoms m enclosing_names (match_body_ids m enclosing_names) [0..<ngeom m])"

declare add_descendants.simps [simp del]
declare closure_passes.simps [simp del]

text \<open>
  A body \<open>b\<close> is a descendant of body \<open>a\<close> when following the parent indices from \<open>b\<close>
  leads to \<open>a\<close> through bodies of the scene graph, in one step or more.
\<close>

inductive descendant :: "model \<Rightarrow> nat \<Rightarrow> nat \<Rightarrow> bool" for m :: model and a :: nat where
  child: "b < nbody m \<Longrightarrow> body_parentid m b = int a \<Longrightarrow> descendant m a b"
| deeper: "descendant m a b \<Longrightarrow> c < nbody m \<Longrightarrow> body_parentid m c = int b \<Longrightarrow> descendant m a c"

section \<open>The layout wall registry\<close>

text \<open>
  The layout file is read by \<^verbatim>\<open>SceneRegistry.get_layout_path\<close>, \<^verbatim>\<open>open\<close> and
  \<^verbatim>\<open>yaml.safe_load\<close>, none of which is part of the wrapper: together they are the
  parameter \<open>load\<close>, from a layout id to the parsed document or to the exception they
  raised. A parsed layout is \<^verbatim>\<open>None\<close> (an empty file) or a mapping that may have a
  \<^verbatim>\<open>room\<close>, which may have \<^verbatim>\<open>walls\<close>, a list of wall records; an absent key and a
  key with the value \<^verbatim>\<open>null\<close> both read as \<^verbatim>\<open>None\<close> through \<^verbatim>\<open>dict.get\<close>. A wall
  record carries its name, a string, and possibly an \<^verbatim>\<open>enclosing_wall\<close> entry, which
  YAML allows to be any scalar.
\<close>

datatype yaml_scalar = YNull | YBool bool | YInt int | YStr string

record wall =
  name :: string
  enclosing_wall :: "yaml_scalar option"

record room =
  walls :: "wall list option"

record layout =
  room :: "room option"

datatype error = IndexError | LoadError

type_synonym loader = "int \<Rightarrow> error + layout option"

text \<open>\<^verbatim>\<open>x or default\<close>, for an \<^verbatim>\<open>x\<close> that is \<^verbatim>\<open>None\<close> or a container: the default also
  replaces an empty container, which is then equal to it.\<close>

definition or_default :: "'a option \<Rightarrow> 'a \<Rightarrow> 'a" where
  "or_default x d = (case x of None \<Rightarrow> d | Some v \<Rightarrow> v)"

text \<open>\<^verbatim>\<open>w.get("enclosing_wall", False) is True\<close>: identity with the object \<^verbatim>\<open>True\<close>.\<close>

definition flag_is_True :: "wall \<Rightarrow> bool" where
  "flag_is_True w = (or_default (enclosing_wall w) (YBool False) = YBool True)"

definition enclosing_wall_names :: "layout option \<Rightarrow> string list" where
  "enclosing_wall_names loaded =
     (let layout_data = or_default loaded \<lparr>room = None\<rparr>;
          ws = or_default (walls (or_default (room layout_data) \<lparr>walls = None\<rparr>)) []
      in map name (filter flag_is_True ws))"

definition get_enclosing_wall_names_from_layout :: "loader \<Rightarrow> int \<Rightarrow> error + string list" where
  "get_enclosing_wall_names_from_layout load layout_id =
     (case load layout_id of
        Inl e \<Rightarrow> Inl e
      | Inr loaded \<Rightarrow> Inr (enclosing_wall_names loaded))"

text \<open>Python's truth value of a YAML scalar, to tell the truthy flags from \<^verbatim>\<open>True\<close>.\<close>

fun truthy :: "yaml_scalar \<Rightarrow> bool" where
  "truthy YNull = False"
| "truthy (YBool b) = b"
| "truthy (YInt i) = (i \<noteq> 0)"
| "truthy (YStr s) = (s \<noteq> [])"

section \<open>The overlay state machine\<close>

text \<open>
  The base environment, \<^verbatim>\<open>_unwrap_env(self.env)\<close>, as far as the wrapper looks at it:
  the attribute \<^verbatim>\<open>sim\<close> may be missing, \<^verbatim>\<open>None\<close>, or a simulation whose \<^verbatim>\<open>model\<close> is
  missing or \<^verbatim>\<open>None\<close> (both read as \<^verbatim>\<open>None\<close> by \<^verbatim>\<open>getattr\<close>) or a live model; the
  attribute \<^verbatim>\<open>layout_id\<close> may be missing. The model is held here only: the wrapper
  mutates it through this reference, so a write to the alpha buffer is an update of the
  environment.
\<close>

datatype sim_attr = NoSimAttr | SimNone | Sim "model option"

record env =
  sim :: sim_attr
  layout_id :: "int option"

record wrapper =
  alpha :: real
  enabled :: bool
  geom_ids :: "nat list option"
  saved_alpha :: "nat \<rightharpoonup> real"
  last_model_ptr :: "nat option"

type_synonym state = "wrapper \<times> env"

text \<open>
  \<^verbatim>\<open>_get_enclosing_wall_geom_ids\<close>: the cached array when there is one; otherwise the
  empty array without a simulation or a layout id, and else the resolver's result for
  the layout's wall names (the layout is loaded before the model is looked at). The
  result is cached in every case.
\<close>

definition get_enclosing_wall_geom_ids :: "loader \<Rightarrow> state \<Rightarrow> error + nat list \<times> wrapper" where
  "get_enclosing_wall_geom_ids load s =
     (case s of (self, base) \<Rightarrow>
      case geom_ids self of
        Some ids \<Rightarrow> Inr (ids, self)
      | None \<Rightarrow>
          if sim base = NoSimAttr \<or> sim base = SimNone \<or> layout_id base = None
          then Inr ([], self\<lparr>geom_ids := Some []\<rparr>)
          else
            case get_enclosing_wall_names_from_layout load (the (layout_id base)) of
              Inl e \<Rightarrow> Inl e
            | Inr enclosing_names \<Rightarrow>
                (case sim base of
                   Sim (Some model) \<Rightarrow>
                     let ids = match_geom_ids model enclosing_names
                     in Inr (ids, self\<lparr>geom_ids := Some ids\<rparr>)
                 | _ \<Rightarrow> Inr ([], self\<lparr>geom_ids := Some []\<rparr>)))"

text \<open>
  The loop that saves the original alphas (lines 182-184): an index already in the map
  is left alone; reading \<^verbatim>\<open>model.geom_rgba[gi, 3]\<close> raises \<^verbatim>\<open>IndexError\<close> outside the
  buffer.
\<close>

fun save_originals :: "model \<Rightarrow> nat list \<Rightarrow> (nat \<rightharpoonup> real) \<Rightarrow> error + (nat \<rightharpoonup> real)" where
  "save_originals model [] saved = Inr saved"
| "save_originals model (gi # gis) saved =
     (if saved gi \<noteq> None then save_originals model gis saved
      else if gi < ngeom model
      then save_originals model gis (saved(gi \<mapsto> geom_alpha model gi))
      else Inl IndexError)"

text \<open>
  The conversion of a Python \<^verbatim>\<open>float\<close> to the single-precision type of the buffer:
  rounding to the nearest number with a 24-bit significand, ties to the even one, with
  the fixed spacing \<open>2^-149\<close> below the normal range. A value too large for single
  precision becomes an infinity in the engine; the reals have none, and the alphas
  written here are the overlay alpha, a number between 0 and 1, and the constant 1.
\<close>

definition round_half_even :: "real \<Rightarrow> int" where
  "round_half_even x =
     (let f = \<lfloor>x\<rfloor>; d = x - of_int f
      in if d < 1 / 2 then f else if d > 1 / 2 then f + 1 else if even f then f else f + 1)"

definition pow2 :: "int \<Rightarrow> real" where
  "pow2 e = (if 0 \<le> e then 2 ^ nat e else 1 / 2 ^ nat (- e))"

definition to_float32 :: "real \<Rightarrow> real" where
  "to_float32 x =
     (if x = 0 then 0
      else
        let e = max \<lfloor>log 2 \<bar>x\<bar>\<rfloor> (- 126);
            ulp = pow2 (e - 23)
        in of_int (round_half_even (x / ulp)) * ulp)"

text \<open>
  The assignment \<^verbatim>\<open>model.geom_rgba[geom_ids, 3] = v\<close>: every listed row gets \<open>v\<close> as
  the buffer stores it; an index outside the buffer raises \<^verbatim>\<open>IndexError\<close>.
\<close>

definition write_alpha :: "model \<Rightarrow> nat list \<Rightarrow> real \<Rightarrow> error + model" where
  "write_alpha model ids v =
     (if list_all (\<lambda>gi. gi < ngeom model) ids
      then Inr (model\<lparr>geom_alpha :=
                  (\<lambda>gi. if gi \<in> set ids then to_float32 v else geom_alpha model gi)\<rparr>)
      else Inl IndexError)"

definition apply_or_restore :: "loader \<Rightarrow> state \<Rightarrow> error + state" where
  "apply_or_restore load s =
     (case s of (self, base) \<Rightarrow>
      case sim base of
        NoSimAttr \<Rightarrow> Inr s
      | SimNone \<Rightarrow> Inr s
      | Sim None \<Rightarrow> Inr s
      | Sim (Some model) \<Rightarrow>
          let self1 =
                (if last_model_ptr self \<noteq> Some (ptr model)
                 then self\<lparr>geom_ids := None, saved_alpha := Map.empty,
                            last_model_ptr := Some (ptr model)\<rparr>
                 else self)
          in
          case get_enclosing_wall_geom_ids load (self1, base) of
            Inl e \<Rightarrow> Inl e
          | Inr (ids, self2) \<Rightarrow>
              if ids = [] then Inr (self2, base)
              else if enabled self2 then
                (case save_originals model ids (saved_alpha self2) of
                   Inl e \<Rightarrow> Inl e
                 | Inr saved \<Rightarrow>
                     (case write_alpha model ids (alpha self2) of
                        Inl e \<Rightarrow> Inl e
                      | Inr model' \<Rightarrow>
                          Inr (self2\<lparr>saved_alpha := saved\<rparr>, base\<lparr>sim := Sim (Some model')\<rparr>)))
              else
                (case write_alpha model ids 1 of
                   Inl e \<Rightarrow> Inl e
                 | Inr model' \<Rightarrow>
                     Inr (self2\<lparr>saved_alpha := Map.empty\<rparr>, base\<lparr>sim := Sim (Some model')\<rparr>)))"

definition set_enabled :: "loader \<Rightarrow> bool \<Rightarrow> state \<Rightarrow> error + state" where
  "set_enabled load en s =
     (case s of (self, base) \<Rightarrow>
      if en = enabled self then Inr s
      else apply_or_restore load (self\<lparr>enabled := en\<rparr>, base))"

definition toggle :: "loader \<Rightarrow> state \<Rightarrow> error + state" where
  "toggle load s = set_enabled load (\<not> enabled (fst s)) s"

text \<open>\<^verbatim>\<open>__init__(env, alpha, enabled)\<close>; the defaults are \<^verbatim>\<open>alpha=0.1\<close> and
  \<^verbatim>\<open>enabled=False\<close>.\<close>

definition init :: "loader \<Rightarrow> env \<Rightarrow> real \<Rightarrow> bool \<Rightarrow> error + state" where
  "init load base a en =
     set_enabled load en
       (\<lparr>alpha = a, enabled = False, geom_ids = None, saved_alpha = Map.empty,
         last_model_ptr = None\<rparr>, base)"

text \<open>
  \<^verbatim>\<open>reset\<close> and \<^verbatim>\<open>visualize\<close> first call the wrapped environment, which is outside the
  wrapper and may do anything to the base environment, a new scene graph included: the
  argument \<open>base'\<close> is the base environment as that call leaves it.
\<close>

definition reset :: "loader \<Rightarrow> env \<Rightarrow> state \<Rightarrow> error + state" where
  "reset load base' s =
     (let self1 = (fst s)\<lparr>geom_ids := None, saved_alpha := Map.empty, last_model_ptr := None\<rparr>
      in if enabled self1 then apply_or_restore load (self1, base') else Inr (self1, base'))"

definition visualize :: "loader \<Rightarrow> env \<Rightarrow> state \<Rightarrow> error + state" where
  "visualize load base' s = apply_or_restore load (fst s, base')"

text \<open>
  The states a wrapper can be in: those that construction and completed calls of
  \<^verbatim>\<open>set_enabled\<close>, \<^verbatim>\<open>toggle\<close>, \<^verbatim>\<open>reset\<close> and \<^verbatim>\<open>visualize\<close> lead to. The predicate
  \<open>P\<close> restricts the base environments the session ever exposes.
\<close>

inductive reachable :: "(env \<Rightarrow> bool) \<Rightarrow> loader \<Rightarrow> state \<Rightarrow> bool"
  for P :: "env \<Rightarrow> bool" and load :: loader where
  r_init: "P base \<Longrightarrow> init load base a en = Inr s \<Longrightarrow> reachable P load s"
| r_set_enabled: "reachable P load s \<Longrightarrow> set_enabled load en s = Inr s' \<Longrightarrow> reachable P load s'"
| r_toggle: "reachable P load s \<Longrightarrow> toggle load s = Inr s' \<Longrightarrow> reachable P load s'"
| r_reset: "reachable P load s \<Longrightarrow> P base' \<Longrightarrow> reset load base' s = Inr s' \<Longrightarrow> reachable P load s'"
| r_visualize: "reachable P load s \<Longrightarrow> P base' \<Longrightarrow> visualize load base' s = Inr s'
    \<Longrightarrow> reachable P load s'"

text \<open>The live scene graph of an environment, if it has one.\<close>

definition live_model :: "env \<Rightarrow> model option" where
  "live_model base = (case sim base of Sim (Some model) \<Rightarrow> Some model | _ \<Rightarrow> None)"

section \<open>The hotkey requests and their consumer\<close>

text \<open>
  The session the handler works on: the two request attributes on its environment
  (\<^verbatim>\<open>None\<close> while \<^verbatim>\<open>install_enclosing_wall_hotkeys\<close> has not created them, which
  \<^verbatim>\<open>getattr(..., False)\<close> reads as \<^verbatim>\<open>False\<close>), the wrapper found in the chain, if any,
  and the base environment.
\<close>

record session =
  force_enclosing_walls_opaque :: "bool option"
  toggle_enclosing_walls :: "bool option"
  found_wrapper :: "wrapper option"
  base_env :: env

datatype key = Esc | CharKey char | OtherKey

text \<open>The listener's \<^verbatim>\<open>_on_release\<close> (lines 310-316).\<close>

fun on_release :: "key \<Rightarrow> session \<Rightarrow> session" where
  "on_release Esc ss = ss\<lparr>toggle_enclosing_walls := Some True\<rparr>"
| "on_release (CharKey c) ss =
     (if c \<in> {CHR ''['', CHR '']''} then ss\<lparr>force_enclosing_walls_opaque := Some True\<rparr> else ss)"
| "on_release OtherKey ss = ss"

text \<open>
  \<^verbatim>\<open>_refresh_visualization_and_redraw\<close>. Whether \<^verbatim>\<open>env.visualize\<close> is called depends on
  attributes of the host environment, and the call reaches the wrapper's \<^verbatim>\<open>visualize\<close>
  when there is a wrapper: \<open>vis\<close> is \<^verbatim>\<open>None\<close> when no call is made, and otherwise the base
  environment as the wrapped environment's own \<^verbatim>\<open>visualize\<close> leaves it. The redraw
  (\<^verbatim>\<open>viewer.update()\<close> or \<^verbatim>\<open>env.render()\<close>) happens in the viewer and changes nothing
  here.
\<close>

definition refresh_visualization_and_redraw ::
    "loader \<Rightarrow> env option \<Rightarrow> session \<Rightarrow> error + session" where
  "refresh_visualization_and_redraw load vis ss =
     (case vis of
        None \<Rightarrow> Inr ss
      | Some base' \<Rightarrow>
          (case found_wrapper ss of
             None \<Rightarrow> Inr (ss\<lparr>base_env := base'\<rparr>)
           | Some self \<Rightarrow>
               (case visualize load base' (self, base_env ss) of
                  Inl e \<Rightarrow> Inl e
                | Inr (self', base'') \<Rightarrow>
                    Inr (ss\<lparr>found_wrapper := Some self', base_env := base''\<rparr>))))"

text \<open>A call of a wrapper method guarded by \<^verbatim>\<open>if self._wrapper is not None\<close>.\<close>

definition on_wrapper :: "(state \<Rightarrow> error + state) \<Rightarrow> session \<Rightarrow> error + session" where
  "on_wrapper f ss =
     (case found_wrapper ss of
        None \<Rightarrow> Inr ss
      | Some self \<Rightarrow>
          (case f (self, base_env ss) of
             Inl e \<Rightarrow> Inl e
           | Inr (self', base') \<Rightarrow> Inr (ss\<lparr>found_wrapper := Some self', base_env := base'\<rparr>)))"

definition consume_pending :: "loader \<Rightarrow> env option \<Rightarrow> session \<Rightarrow> error + bool \<times> session" where
  "consume_pending load vis ss =
     (let force_opaque = or_default (force_enclosing_walls_opaque ss) False;
          toggle_req = or_default (toggle_enclosing_walls ss) False
      in
      if \<not> force_opaque \<and> \<not> toggle_req then Inr (False, ss)
      else if force_opaque then
        (case on_wrapper (set_enabled load False) ss of
           Inl e \<Rightarrow> Inl e
         | Inr ss1 \<Rightarrow>
             (case refresh_visualization_and_redraw load vis
                     (ss1\<lparr>force_enclosing_walls_opaque := Some False,
                          toggle_enclosing_walls := Some False\<rparr>) of
                Inl e \<Rightarrow> Inl e
              | Inr ss2 \<Rightarrow> Inr (True, ss2)))
      else
        (case on_wrapper (toggle load) ss of
           Inl e \<Rightarrow> Inl e
         | Inr ss1 \<Rightarrow>
             (case refresh_visualization_and_redraw load vis
                     (ss1\<lparr>toggle_enclosing_walls := Some False\<rparr>) of
                Inl e \<Rightarrow> Inl e
              | Inr ss2 \<Rightarrow> Inr (True, ss2))))"

text \<open>The model with the alpha of the listed geometries set to \<open>v\<close>.\<close>

definition paint :: "model \<Rightarrow> nat list \<Rightarrow> real \<Rightarrow> model" where
  "paint m ids v = m\<lparr>geom_alpha := (\<lambda>gi. if gi \<in> set ids then v else geom_alpha m gi)\<rparr>"

text \<open>The sessions whose environments never expose a layout id.\<close>

definition no_layout_env :: "env \<Rightarrow> bool" where
  "no_layout_env base = (layout_id base = None)"

text \<open>
  The \<^verbatim>\<open>room.walls\<close> collection of a layout as the specification reads it: the wall
  records, and no wall at all when the document, the room or the collection is absent.
\<close>

definition layout_walls :: "layout option \<Rightarrow> wall list" where
  "layout_walls loaded =
     (case loaded of
        None \<Rightarrow> []
      | Some l \<Rightarrow>
          (case room l of
             None \<Rightarrow> []
           | Some r \<Rightarrow> (case walls r of None \<Rightarrow> [] | Some ws \<Rightarrow> ws)))"

text \<open>The wrapper after the identity check of \<^verbatim>\<open>_apply_or_restore\<close> (lines 170-174).\<close>

definition checked :: "wrapper \<Rightarrow> model \<Rightarrow> wrapper" where
  "checked self m =
     (if last_model_ptr self \<noteq> Some (ptr m)
      then self\<lparr>geom_ids := None, saved_alpha := Map.empty, last_model_ptr := Some (ptr m)\<rparr>
      else self)"






section \<open>Example scenes\<close>

text \<open>
  A scene with a wall body (3), its child (2) and its grandchild (1), listed so that one
  pass of the closure cannot reach both, each owning one geometry with its own alpha.
\<close>

definition nested_scene :: model where
  "nested_scene = \<lparr>ptr = 1, nbody = 4,
     body_id2name = (\<lambda>b. [Some ''world'', Some ''deco_c'', Some ''panel_b'', Some ''wall_left''] ! b),
     body_parentid = (\<lambda>b. [- 1, 2, 3, 0] ! b),
     ngeom = 4,
     geom_bodyid = (\<lambda>i. [0, 1, 2, 3] ! i),
     geom_id2name = (\<lambda>i. [Some ''floor'', None, None, Some ''g_wall''] ! i),
     geom_alpha = (\<lambda>i. [1, 1 / 2, 1 / 4, 1] ! i)\<rparr>"

text \<open>
  A layout with four walls, of which only the first is flagged \<^verbatim>\<open>true\<close>; the flags
  \<^verbatim>\<open>1\<close> and \<^verbatim>\<open>"true"\<close> are truthy without being \<^verbatim>\<open>True\<close>. A loader that finds
  it under every id, a loader that always fails, an environment with the nested scene and
  a layout id, an environment before its first reset, and the wrapper as
  \<^verbatim>\<open>__init__\<close> leaves it with the default arguments.
\<close>

definition example_layout :: "layout option" where
  "example_layout = Some \<lparr>room = Some \<lparr>walls = Some
     [\<lparr>name = ''wall'', enclosing_wall = Some (YBool True)\<rparr>,
      \<lparr>name = ''deco'', enclosing_wall = Some (YInt 1)\<rparr>,
      \<lparr>name = ''panel'', enclosing_wall = Some (YStr ''true'')\<rparr>,
      \<lparr>name = ''floor'', enclosing_wall = None\<rparr>]\<rparr>\<rparr>"

definition example_loader :: loader where
  "example_loader lid = Inr example_layout"

definition failing_loader :: loader where
  "failing_loader lid = Inl LoadError"

definition example_env :: env where
  "example_env = \<lparr>sim = Sim (Some nested_scene), layout_id = Some 0\<rparr>"

definition bare_env :: env where
  "bare_env = \<lparr>sim = NoSimAttr, layout_id = None\<rparr>"

definition default_wrapper :: wrapper where
  "default_wrapper = \<lparr>alpha = 1 / 10, enabled = False, geom_ids = None,
     saved_alpha = Map.empty, last_model_ptr = None\<rparr>"


text \<open>
  A layout without any wall flagged \<^verbatim>\<open>true\<close>, an environment with a scene graph and
  no layout id, and the states of the example session: with the overlay applied, with
  the walls restored, and with a cache left over from another scene graph.
\<close>

definition plain_layout :: "layout option" where
  "plain_layout = Some \<lparr>room = Some \<lparr>walls = Some
     [\<lparr>name = ''wall'', enclosing_wall = Some (YInt 1)\<rparr>,
      \<lparr>name = ''wall_b'', enclosing_wall = None\<rparr>]\<rparr>\<rparr>"

definition plain_loader :: loader where
  "plain_loader lid = Inr plain_layout"

definition unlaid_env :: env where
  "unlaid_env = \<lparr>sim = Sim (Some nested_scene), layout_id = None\<rparr>"

definition overlay_wrapper :: wrapper where
  "overlay_wrapper = \<lparr>alpha = 1 / 10, enabled = True, geom_ids = Some [1, 2, 3],
     saved_alpha = (\<lambda>g. if g \<in> set [1, 2, 3] then Some (geom_alpha nested_scene g) else None),
     last_model_ptr = Some 1\<rparr>"

definition overlay_env :: env where
  "overlay_env = \<lparr>sim = Sim (Some (paint nested_scene [1, 2, 3] (to_float32 (1 / 10)))), layout_id = Some 0\<rparr>"

definition restored_wrapper :: wrapper where
  "restored_wrapper = \<lparr>alpha = 1 / 10, enabled = False, geom_ids = Some [1, 2, 3],
     saved_alpha = Map.empty, last_model_ptr = Some 1\<rparr>"

definition restored_env :: env where
  "restored_env = \<lparr>sim = Sim (Some (paint nested_scene [1, 2, 3] 1)), layout_id = Some 0\<rparr>"

definition stale_wrapper :: wrapper where
  "stale_wrapper = \<lparr>alpha = 1 / 10, enabled = True, geom_ids = Some [7, 9],
     saved_alpha = [7 \<mapsto> 1], last_model_ptr = Some 99\<rparr>"

definition pending_session :: session where
  "pending_session = \<lparr>force_enclosing_walls_opaque = Some True,
     toggle_enclosing_walls = Some True, found_wrapper = Some overlay_wrapper,
     base_env = overlay_env\<rparr>"

section \<open>Properties of the geometry resolver\<close>

subsection \<open>Name matching\<close>

lemma startswith_iff: "startswith s p \<longleftrightarrow> (\<exists>t. s = p @ t)"
proof
  assume "startswith s p"
  then have "s = p @ drop (length p) s"
    unfolding startswith_def by (metis append_take_drop_id)
  then show "\<exists>t. s = p @ t" ..
next
  assume "\<exists>t. s = p @ t"
  then show "startswith s p" unfolding startswith_def by auto
qed

lemma endswith_iff: "endswith s p \<longleftrightarrow> (\<exists>t. s = t @ p)"
proof
  assume "endswith s p"
  then have "s = take (length s - length p) s @ p"
    unfolding endswith_def by (metis append_take_drop_id)
  then show "\<exists>t. s = t @ p" ..
next
  assume "\<exists>t. s = t @ p"
  then show "endswith s p" unfolding endswith_def by auto
qed

lemma matches_any_iff: "matches_any s enames \<longleftrightarrow> (\<exists>w\<in>set enames. name_matches s w)"
  by (induction enames) auto

lemma collect_bodies_iff:
  "x \<in> collect_bodies m enames bs body_ids \<longleftrightarrow>
     x \<in> body_ids \<or>
     (\<exists>b\<in>set bs. x = int b \<and> (\<exists>s. body_id2name m b = Some s \<and> matches_any s enames))"
  by (induction bs arbitrary: body_ids) (auto split: option.splits)

lemma collect_geoms_iff:
  "i \<in> set (collect_geoms m enames body_ids is) \<longleftrightarrow>
     i \<in> set is \<and>
     (geom_bodyid m i \<in> body_ids \<or> (\<exists>s. geom_id2name m i = Some s \<and> matches_any s enames))"
  by (induction "is") (auto split: option.splits)

lemma collect_bodies_range:
  "collect_bodies m enames [0..<nbody m] {} \<subseteq> {0..<int (nbody m)}"
  by (auto simp: collect_bodies_iff)

text \<open>
  Claim C2. For every name \<open>s\<close> of a body or geometry and every wall name \<open>w\<close>, the
  condition tested by the resolver holds exactly when \<open>s\<close> equals \<open>w\<close>, or \<open>s\<close> starts
  with \<open>w\<close> followed by an underscore, or \<open>s\<close> ends with an underscore followed by \<open>w\<close>;
  \<^verbatim>\<open>wall_1\<close> matches the wall name \<^verbatim>\<open>wall\<close> and \<^verbatim>\<open>wall1\<close> does not. The body loop puts
  a body into the working set exactly when its name matches some wall name under this
  condition, and the geometry loop keeps a geometry exactly when its owning body is in
  the working set or its own name matches some wall name under the same condition.
\<close>

theorem name_matches_rules:
  "(name_matches s w \<longleftrightarrow>
      s = w \<or> (\<exists>t. s = w @ ''_'' @ t) \<or> (\<exists>t. s = t @ ''_'' @ w))
   \<and> name_matches ''wall_1'' ''wall''
   \<and> \<not> name_matches ''wall1'' ''wall''
   \<and> (int b \<in> collect_bodies m enames [0..<nbody m] {} \<longleftrightarrow>
        b < nbody m \<and>
        (\<exists>s'. body_id2name m b = Some s' \<and> (\<exists>w'\<in>set enames. name_matches s' w')))
   \<and> (i \<in> set (collect_geoms m enames body_ids [0..<ngeom m]) \<longleftrightarrow>
        i < ngeom m \<and>
        (geom_bodyid m i \<in> body_ids \<or>
          (\<exists>s'. geom_id2name m i = Some s' \<and> (\<exists>w'\<in>set enames. name_matches s' w'))))"
proof -
  have 1: "name_matches s w \<longleftrightarrow>
      s = w \<or> (\<exists>t. s = w @ ''_'' @ t) \<or> (\<exists>t. s = t @ ''_'' @ w)"
    by (simp add: name_matches_def startswith_iff endswith_iff)
  have 2: "name_matches ''wall_1'' ''wall''"
    by (simp add: name_matches_def startswith_def)
  have 3: "\<not> name_matches ''wall1'' ''wall''"
    by (simp add: name_matches_def startswith_def endswith_def)
  have 4: "int b \<in> collect_bodies m enames [0..<nbody m] {} \<longleftrightarrow>
        b < nbody m \<and>
        (\<exists>s'. body_id2name m b = Some s' \<and> (\<exists>w'\<in>set enames. name_matches s' w'))"
    by (auto simp: collect_bodies_iff matches_any_iff)
  have 5: "i \<in> set (collect_geoms m enames body_ids [0..<ngeom m]) \<longleftrightarrow>
        i < ngeom m \<and>
        (geom_bodyid m i \<in> body_ids \<or>
          (\<exists>s'. geom_id2name m i = Some s' \<and> (\<exists>w'\<in>set enames. name_matches s' w')))"
    by (auto simp: collect_geoms_iff matches_any_iff)
  from 1 2 3 4 5 show ?thesis by blast
qed

theorem name_matches_rules_witness:
  "name_matches ''left_wall'' ''wall'' \<and> name_matches ''wall_1'' ''wall''
   \<and> \<not> name_matches ''wall1'' ''wall''"
proof (intro conjI)
  note A = name_matches_rules [of "''left_wall''" "''wall''" 3 nested_scene "[''wall'']" 0 "{}"]
  have "\<exists>t. ''left_wall'' = t @ ''_'' @ ''wall''"
    by (rule exI [of _ "''left''"]) simp
  then have "''left_wall'' = ''wall'' \<or> (\<exists>t. ''left_wall'' = ''wall'' @ ''_'' @ t)
      \<or> (\<exists>t. ''left_wall'' = t @ ''_'' @ ''wall'')"
    by simp
  then show "name_matches ''left_wall'' ''wall''"
    by (rule iffD2 [OF A [THEN conjunct1]])
  show "name_matches ''wall_1'' ''wall''"
    by (rule A [THEN conjunct2, THEN conjunct1])
  show "\<not> name_matches ''wall1'' ''wall''"
    by (rule A [THEN conjunct2, THEN conjunct2, THEN conjunct1])
qed

subsection \<open>Descendant closure\<close>

lemma closure_pass_noadd:
  "snd (closure_pass m bs body_ids added) = False \<Longrightarrow> b \<in> set bs \<Longrightarrow>
     0 \<le> body_parentid m b \<Longrightarrow> body_parentid m b \<in> body_ids \<Longrightarrow> int b \<in> body_ids"
proof (induction bs arbitrary: added)
  case Nil
  then show ?case by simp
next
  case (Cons c cs)
  show ?case
  proof (cases "int c \<notin> body_ids \<and> body_parentid m c \<ge> 0 \<and> body_parentid m c \<in> body_ids")
    case True
    then have "snd (closure_pass m (c # cs) body_ids added)
        = snd (closure_pass m cs (insert (int c) body_ids) True)"
      by (simp add: Let_def)
    also have "\<dots> = True"
      by (simp add: closure_pass_flag [of m cs "insert (int c) body_ids" True])
    finally show ?thesis using Cons.prems(1) by simp
  next
    case False
    then have eq: "closure_pass m (c # cs) body_ids added = closure_pass m cs body_ids added"
      by (auto simp: Let_def)
    show ?thesis
    proof (cases "b = c")
      case True
      with False Cons.prems show ?thesis by auto
    next
      case False
      with Cons.prems eq Cons.IH [of added] show ?thesis by simp
    qed
  qed
qed

lemma add_descendants_mono: "body_ids \<subseteq> add_descendants m body_ids"
proof (induction m body_ids rule: add_descendants.induct)
  case (1 m body_ids)
  obtain S' added where p: "closure_pass m [0..<nbody m] body_ids False = (S', added)"
    by (cases "closure_pass m [0..<nbody m] body_ids False")
  have sub: "body_ids \<subseteq> S'"
    using closure_pass_mono [of body_ids m "[0..<nbody m]" False] p by simp
  show ?case
  proof (cases added)
    case True
    from "1.IH" [OF p [symmetric] True] have "S' \<subseteq> add_descendants m S'" .
    moreover from p True have "add_descendants m body_ids = add_descendants m S'"
      by (simp add: add_descendants.simps [of m body_ids])
    ultimately show ?thesis using sub by simp
  next
    case False
    with p have "add_descendants m body_ids = S'"
      by (simp add: add_descendants.simps [of m body_ids])
    with sub show ?thesis by simp
  qed
qed

lemma add_descendants_fixed:
  "closure_pass m [0..<nbody m] (add_descendants m body_ids) False
     = (add_descendants m body_ids, False)"
proof (induction m body_ids rule: add_descendants.induct)
  case (1 m body_ids)
  obtain S' added where p: "closure_pass m [0..<nbody m] body_ids False = (S', added)"
    by (cases "closure_pass m [0..<nbody m] body_ids False")
  show ?case
  proof (cases added)
    case True
    from p True have "add_descendants m body_ids = add_descendants m S'"
      by (simp add: add_descendants.simps [of m body_ids])
    with "1.IH" [OF p [symmetric] True] show ?thesis by simp
  next
    case False
    with p have r: "add_descendants m body_ids = S'"
      by (simp add: add_descendants.simps [of m body_ids])
    from closure_pass_flag [of m "[0..<nbody m]" body_ids False] p False
    have "S' = body_ids" by simp
    with p False r show ?thesis by simp
  qed
qed

lemma add_descendants_closed:
  assumes "b < nbody m" and "0 \<le> body_parentid m b"
    and "body_parentid m b \<in> add_descendants m body_ids"
  shows "int b \<in> add_descendants m body_ids"
proof -
  have "snd (closure_pass m [0..<nbody m] (add_descendants m body_ids) False) = False"
    by (simp add: add_descendants_fixed)
  from closure_pass_noadd [OF this _ assms(2,3)] assms(1) show ?thesis by simp
qed

lemma descendant_in_closure:
  assumes "descendant m a b" and "int a \<in> add_descendants m body_ids"
  shows "int b \<in> add_descendants m body_ids"
  using assms
proof (induction rule: descendant.induct)
  case (child b)
  then show ?case by (intro add_descendants_closed) simp_all
next
  case (deeper b c)
  then show ?case by (intro add_descendants_closed) simp_all
qed

lemma closure_pass_empty: "closure_pass m bs {} added = ({}, added)"
  by (induction bs) (simp_all add: Let_def)

lemma closure_passes_bound:
  "closure_passes m body_ids \<le> Suc (nbody m - card (body_ids \<inter> {0..<int (nbody m)}))"
proof (induction m body_ids rule: closure_passes.induct)
  case (1 m body_ids)
  obtain S' added where p: "closure_pass m [0..<nbody m] body_ids False = (S', added)"
    by (cases "closure_pass m [0..<nbody m] body_ids False")
  show ?case
  proof (cases added)
    case True
    with p have "closure_passes m body_ids = Suc (closure_passes m S')"
      by (simp add: closure_passes.simps [of m body_ids])
    moreover from "1.IH" [OF p [symmetric] True]
    have "closure_passes m S' \<le> Suc (nbody m - card (S' \<inter> {0..<int (nbody m)}))" .
    moreover from p True
    have "card (body_ids \<inter> {0..<int (nbody m)}) < card (S' \<inter> {0..<int (nbody m)})"
      by (intro closure_pass_grows) simp
    moreover have "card (S' \<inter> {0..<int (nbody m)}) \<le> nbody m"
      by (rule card_in_range)
    ultimately show ?thesis by linarith
  next
    case False
    with p have "closure_passes m body_ids = Suc 0"
      by (simp add: closure_passes.simps [of m body_ids])
    then show ?thesis by simp
  qed
qed

lemma closure_passes_le:
  assumes "body_ids \<subseteq> {0..<int (nbody m)}"
  shows "closure_passes m body_ids \<le> max 1 (nbody m)"
proof (cases "body_ids = {}")
  case True
  then have "closure_passes m body_ids = Suc 0"
    by (simp add: closure_passes.simps [of m "{}"] closure_pass_empty)
  then show ?thesis by simp
next
  case False
  with assms have "body_ids \<inter> {0..<int (nbody m)} \<noteq> {}" by blast
  then have "0 < card (body_ids \<inter> {0..<int (nbody m)})"
    by (simp add: card_gt_0_iff)
  moreover have "card (body_ids \<inter> {0..<int (nbody m)}) \<le> nbody m"
    by (rule card_in_range)
  moreover note closure_passes_bound [of m body_ids]
  ultimately show ?thesis by linarith
qed

text \<open>
  Claim C3. For every scene graph and every non-empty list of wall names: if the body
  \<open>a\<close> has a name that matches a wall name, then every descendant \<open>b\<close> of \<open>a\<close> in the
  parent-index tree, at any depth, is in the working body set when the fixed-point loop
  ends, and every geometry owned by \<open>b\<close> is in the resolved geometry list.
\<close>

theorem descendant_closure:
  assumes "enames \<noteq> []" and "a < nbody m" and "body_id2name m a = Some s"
    and "w \<in> set enames" and "name_matches s w" and "descendant m a b"
  shows "int b \<in> match_body_ids m enames \<and>
    (\<forall>g<ngeom m. geom_bodyid m g = int b \<longrightarrow> g \<in> set (match_geom_ids m enames))"
proof -
  have "int a \<in> collect_bodies m enames [0..<nbody m] {}"
    using assms(2-5) by (auto simp: collect_bodies_iff matches_any_iff)
  then have "int a \<in> match_body_ids m enames"
    unfolding match_body_ids_def using add_descendants_mono by blast
  with assms(6) have b: "int b \<in> match_body_ids m enames"
    unfolding match_body_ids_def by (rule descendant_in_closure)
  with assms(1) show ?thesis
    by (simp add: match_geom_ids_def collect_geoms_iff)
qed

theorem descendant_closure_witness:
  "descendant nested_scene 3 1 \<and> int 1 \<in> match_body_ids nested_scene [''wall'']
   \<and> 1 \<in> set (match_geom_ids nested_scene [''wall''])"
proof -
  have "descendant nested_scene 3 2"
    by (rule descendant.child) (simp_all add: nested_scene_def)
  then have d: "descendant nested_scene 3 1"
    by (rule descendant.deeper) (simp_all add: nested_scene_def)
  have n: "name_matches ''wall_left'' ''wall''"
    by (simp add: name_matches_def startswith_def)
  have e: "[''wall''] \<noteq> []" and l: "3 < nbody nested_scene"
    and b: "body_id2name nested_scene 3 = Some ''wall_left''"
    and w: "''wall'' \<in> set [''wall'']"
    by (simp_all add: nested_scene_def)
  note c = descendant_closure [OF e l b w n d]
  have g: "1 < ngeom nested_scene" and o: "geom_bodyid nested_scene 1 = int 1"
    by (simp_all add: nested_scene_def)
  from c [THEN conjunct2] g o have "1 \<in> set (match_geom_ids nested_scene [''wall''])"
    by simp
  with d c [THEN conjunct1] show ?thesis by simp
qed

subsection \<open>Termination of the closure loop\<close>

text \<open>
  Claim C10. A MuJoCo model always has the world body, so \<^verbatim>\<open>nbody\<close> is positive. On
  every such scene graph the fixed-point loop, started from a set of body indices,
  terminates (\<open>add_descendants\<close> is a total function, and its result is a set that a
  further pass leaves unchanged with the flag unset); each pass that sets the flag
  strictly enlarges the working set, which stays within the \<^verbatim>\<open>nbody\<close> body indices;
  and the loop makes at most \<^verbatim>\<open>nbody\<close> passes.
\<close>

theorem closure_loop_terminates:
  assumes "body_ids \<subseteq> {0..<int (nbody m)}" and "0 < nbody m"
  shows "closure_passes m body_ids \<le> nbody m
    \<and> (closure_pass m [0..<nbody m] body_ids False = (body_ids', True) \<longrightarrow>
         body_ids \<subset> body_ids' \<and> body_ids' \<subseteq> {0..<int (nbody m)})
    \<and> closure_pass m [0..<nbody m] (add_descendants m body_ids) False
         = (add_descendants m body_ids, False)"
proof -
  have "body_ids \<subset> body_ids' \<and> body_ids' \<subseteq> {0..<int (nbody m)}"
    if p: "closure_pass m [0..<nbody m] body_ids False = (body_ids', True)"
  proof -
    have "body_ids \<subseteq> body_ids'"
      using closure_pass_mono [of body_ids m "[0..<nbody m]" False] p by simp
    moreover have "body_ids' \<noteq> body_ids"
      using closure_pass_flag [of m "[0..<nbody m]" body_ids False] p by simp
    moreover have "body_ids' \<subseteq> body_ids \<union> int ` set [0..<nbody m]"
      using closure_pass_upper [of m "[0..<nbody m]" body_ids False] p by simp
    then have "body_ids' \<subseteq> {0..<int (nbody m)}" using assms(1) by auto
    ultimately show ?thesis by blast
  qed
  moreover from closure_passes_le [OF assms(1)] assms(2)
  have "closure_passes m body_ids \<le> nbody m" by simp
  ultimately show ?thesis
    using add_descendants_fixed [of m body_ids] by blast
qed

theorem closure_loop_terminates_witness:
  "collect_bodies nested_scene [''wall''] [0..<nbody nested_scene] {}
     \<subseteq> {0..<int (nbody nested_scene)}
   \<and> 0 < nbody nested_scene
   \<and> closure_passes nested_scene
       (collect_bodies nested_scene [''wall''] [0..<nbody nested_scene] {}) \<le> 4"
proof -
  have r: "collect_bodies nested_scene [''wall''] [0..<nbody nested_scene] {}
     \<subseteq> {0..<int (nbody nested_scene)}"
    by (rule collect_bodies_range)
  have n: "nbody nested_scene = 4" and z: "0 < nbody nested_scene"
    by (simp_all add: nested_scene_def)
  from closure_loop_terminates [OF r z, THEN conjunct1] n
  have "closure_passes nested_scene
       (collect_bodies nested_scene [''wall''] [0..<nbody nested_scene] {}) \<le> 4"
    by (simp only:)
  with r z show ?thesis by simp
qed

section \<open>Properties of the overlay state machine\<close>

subsection \<open>Buffer writes and the registry\<close>

lemma paint_simps [simp]:
  "ptr (paint m ids v) = ptr m" "ngeom (paint m ids v) = ngeom m"
  "geom_alpha (paint m ids v) g = (if g \<in> set ids then v else geom_alpha m g)"
  "paint m [] v = m"
  by (simp_all add: paint_def)

lemma to_float32_one [simp]: "to_float32 1 = 1"
proof -
  have u: "pow2 (- 23) = 1 / 8388608" by (simp add: pow2_def)
  have "round_half_even 8388608 = 8388608"
    by (simp add: round_half_even_def)
  then show ?thesis
    by (simp add: to_float32_def Let_def u)
qed



lemma write_alpha_ok:
  "list_all (\<lambda>gi. gi < ngeom m) ids \<Longrightarrow>
     write_alpha m ids v = Inr (paint m ids (to_float32 v))"
  by (simp add: write_alpha_def paint_def)

lemma write_alpha_Inr:
  "write_alpha m ids v = Inr m' \<Longrightarrow>
     list_all (\<lambda>gi. gi < ngeom m) ids \<and> m' = paint m ids (to_float32 v)"
  by (simp add: write_alpha_def paint_def split: if_splits)

lemma save_originals_ok:
  "list_all (\<lambda>gi. gi < ngeom m) ids \<Longrightarrow>
     save_originals m ids saved =
       Inr (\<lambda>g. case saved g of Some v \<Rightarrow> Some v
                | None \<Rightarrow> if g \<in> set ids then Some (geom_alpha m g) else None)"
proof (induction ids arbitrary: saved)
  case Nil
  show ?case by (auto split: option.splits)
next
  case (Cons gi gis)
  then have r: "list_all (\<lambda>gi. gi < ngeom m) gis" and l: "gi < ngeom m" by simp_all
  show ?case
  proof (cases "saved gi")
    case None
    with l have "save_originals m (gi # gis) saved
        = save_originals m gis (saved(gi \<mapsto> geom_alpha m gi))" by simp
    also have "\<dots> = Inr (\<lambda>g. case (saved(gi \<mapsto> geom_alpha m gi)) g of Some v \<Rightarrow> Some v
                | None \<Rightarrow> if g \<in> set gis then Some (geom_alpha m g) else None)"
      by (rule Cons.IH [OF r])
    also have "(\<lambda>g. case (saved(gi \<mapsto> geom_alpha m gi)) g of Some v \<Rightarrow> Some v
                | None \<Rightarrow> if g \<in> set gis then Some (geom_alpha m g) else None)
        = (\<lambda>g. case saved g of Some v \<Rightarrow> Some v
                | None \<Rightarrow> if g \<in> set (gi # gis) then Some (geom_alpha m g) else None)"
      using None by (auto split: option.splits)
    finally show ?thesis .
  next
    case (Some v)
    then have "save_originals m (gi # gis) saved = save_originals m gis saved" by simp
    also have "\<dots> = Inr (\<lambda>g. case saved g of Some v \<Rightarrow> Some v
                | None \<Rightarrow> if g \<in> set gis then Some (geom_alpha m g) else None)"
      by (rule Cons.IH [OF r])
    also have "(\<lambda>g. case saved g of Some v \<Rightarrow> Some v
                | None \<Rightarrow> if g \<in> set gis then Some (geom_alpha m g) else None)
        = (\<lambda>g. case saved g of Some v \<Rightarrow> Some v
                | None \<Rightarrow> if g \<in> set (gi # gis) then Some (geom_alpha m g) else None)"
      using Some by (auto split: option.splits)
    finally show ?thesis .
  qed
qed

lemma match_geom_ids_range: "list_all (\<lambda>gi. gi < ngeom m) (match_geom_ids m enames)"
  by (simp add: match_geom_ids_def list_all_iff collect_geoms_iff)

lemma enclosing_wall_names_eq:
  "enclosing_wall_names loaded =
     map name (filter (\<lambda>w. enclosing_wall w = Some (YBool True)) (layout_walls loaded))"
proof -
  have f: "flag_is_True = (\<lambda>w. enclosing_wall w = Some (YBool True))"
    by (auto simp: flag_is_True_def or_default_def fun_eq_iff split: option.splits)
  show ?thesis
    by (simp add: enclosing_wall_names_def layout_walls_def or_default_def f
        split: option.splits)
qed

subsection \<open>The steps of apply-or-restore\<close>

lemma get_ids_cached:
  "geom_ids self = Some ids \<Longrightarrow> get_enclosing_wall_geom_ids load (self, base) = Inr (ids, self)"
  by (simp add: get_enclosing_wall_geom_ids_def)

lemma get_ids_fresh:
  "geom_ids self = None \<Longrightarrow> sim base = Sim (Some m) \<Longrightarrow> layout_id base = Some lid \<Longrightarrow>
   load lid = Inr loaded \<Longrightarrow>
   get_enclosing_wall_geom_ids load (self, base) =
     Inr (match_geom_ids m (enclosing_wall_names loaded),
          self\<lparr>geom_ids := Some (match_geom_ids m (enclosing_wall_names loaded))\<rparr>)"
  by (simp add: get_enclosing_wall_geom_ids_def get_enclosing_wall_names_from_layout_def Let_def)

lemma get_ids_no_layout:
  "geom_ids self = None \<Longrightarrow> layout_id base = None \<Longrightarrow>
   get_enclosing_wall_geom_ids load (self, base) = Inr ([], self\<lparr>geom_ids := Some []\<rparr>)"
  by (simp add: get_enclosing_wall_geom_ids_def)

lemma get_ids_shape:
  assumes "get_enclosing_wall_geom_ids load (self, base) = Inr (ids, self2)"
  shows "self2 = self\<lparr>geom_ids := Some ids\<rparr>"
    and "sim base = Sim (Some m) \<Longrightarrow> geom_ids self = None \<Longrightarrow> list_all (\<lambda>gi. gi < ngeom m) ids"
proof -
  show "self2 = self\<lparr>geom_ids := Some ids\<rparr>"
  proof (cases "geom_ids self")
    case (Some ids')
    with assms have "ids = ids'" "self2 = self" by (simp_all add: get_ids_cached)
    with Some show ?thesis by (cases self) simp
  next
    case None
    with assms show ?thesis
      by (auto simp: get_enclosing_wall_geom_ids_def Let_def
          split: if_splits sum.splits sim_attr.splits option.splits)
  qed
  show "list_all (\<lambda>gi. gi < ngeom m) ids" if "sim base = Sim (Some m)" "geom_ids self = None"
    using assms that
    by (auto simp: get_enclosing_wall_geom_ids_def Let_def match_geom_ids_range
        split: if_splits sum.splits)
qed


lemma live_model_Some: "live_model base = Some m \<longleftrightarrow> sim base = Sim (Some m)"
  by (auto simp: live_model_def split: sim_attr.splits option.splits)

lemma apply_no_live:
  "live_model base = None \<Longrightarrow> apply_or_restore load (self, base) = Inr (self, base)"
  by (auto simp: live_model_def apply_or_restore_def split: sim_attr.splits option.splits)

lemma checked_simps [simp]:
  "last_model_ptr (checked self m) = Some (ptr m)"
  "enabled (checked self m) = enabled self"
  "alpha (checked self m) = alpha self"
  by (simp_all add: checked_def)

lemma apply_live:
  assumes "sim base = Sim (Some m)"
  shows "apply_or_restore load (self, base) =
     (case get_enclosing_wall_geom_ids load (checked self m, base) of
        Inl e \<Rightarrow> Inl e
      | Inr (ids, self2) \<Rightarrow>
          if ids = [] then Inr (self2, base)
          else if enabled self then
            (case save_originals m ids (saved_alpha self2) of
               Inl e \<Rightarrow> Inl e
             | Inr saved \<Rightarrow>
                 (case write_alpha m ids (alpha self) of
                    Inl e \<Rightarrow> Inl e
                  | Inr m' \<Rightarrow> Inr (self2\<lparr>saved_alpha := saved\<rparr>, base\<lparr>sim := Sim (Some m')\<rparr>)))
          else
            (case write_alpha m ids 1 of
               Inl e \<Rightarrow> Inl e
             | Inr m' \<Rightarrow> Inr (self2\<lparr>saved_alpha := Map.empty\<rparr>, base\<lparr>sim := Sim (Some m')\<rparr>)))"
proof (cases "get_enclosing_wall_geom_ids load (checked self m, base)")
  case (Inl e)
  with assms show ?thesis
    by (simp add: apply_or_restore_def checked_def Let_def)
next
  case (Inr r)
  obtain ids self2 where r: "r = (ids, self2)" by (cases r)
  from Inr r have "self2 = (checked self m)\<lparr>geom_ids := Some ids\<rparr>"
    by (simp add: get_ids_shape(1))
  then have e: "enabled self2 = enabled self" "alpha self2 = alpha self" by simp_all
  from Inr r assms e show ?thesis
    by (simp add: apply_or_restore_def checked_def [symmetric] Let_def cong: sum.case_cong)
qed

text \<open>What a completed \<^verbatim>\<open>_apply_or_restore\<close> on a live scene graph has done.\<close>

lemma apply_live_Inr:
  assumes "sim base = Sim (Some m)"
    and "apply_or_restore load (self, base) = Inr (self', base')"
  shows "\<exists>ids. get_enclosing_wall_geom_ids load (checked self m, base)
            = Inr (ids, (checked self m)\<lparr>geom_ids := Some ids\<rparr>)
        \<and> geom_ids self' = Some ids \<and> last_model_ptr self' = Some (ptr m)
        \<and> enabled self' = enabled self \<and> alpha self' = alpha self
        \<and> list_all (\<lambda>gi. gi < ngeom m) ids
        \<and> base' = base\<lparr>sim := Sim (Some (paint m ids (if enabled self then to_float32 (alpha self) else 1)))\<rparr>"
proof -
  from assms(2) obtain ids self2 where
    g: "get_enclosing_wall_geom_ids load (checked self m, base) = Inr (ids, self2)"
    by (auto simp: apply_live [OF assms(1)] split: sum.splits)
  then have s2: "self2 = (checked self m)\<lparr>geom_ids := Some ids\<rparr>"
    by (rule get_ids_shape(1))
  have b: "base\<lparr>sim := Sim (Some m)\<rparr> = base" using assms(1) by (cases base) simp
  show ?thesis
  proof (cases "ids = []")
    case True
    with g assms(2) have "self' = self2" "base' = base"
      by (simp_all add: apply_live [OF assms(1)])
    with True g s2 b show ?thesis by simp
  next
    case False
    show ?thesis
    proof (cases "enabled self")
      case True
      with False g assms(2) obtain saved m' where
        w: "write_alpha m ids (alpha self) = Inr m'"
        and r: "self' = self2\<lparr>saved_alpha := saved\<rparr>" "base' = base\<lparr>sim := Sim (Some m')\<rparr>"
        by (auto simp: apply_live [OF assms(1)] split: sum.splits)
      from write_alpha_Inr [OF w] r g s2 True show ?thesis by simp
    next
      case en: False
      with False g assms(2) obtain m' where
        w: "write_alpha m ids 1 = Inr m'"
        and r: "self' = self2\<lparr>saved_alpha := Map.empty\<rparr>" "base' = base\<lparr>sim := Sim (Some m')\<rparr>"
        by (auto simp: apply_live [OF assms(1)] split: sum.splits)
      from write_alpha_Inr [OF w] r g s2 en show ?thesis by simp
    qed
  qed
qed

subsection \<open>The invariant of the reachable states\<close>

lemma apply_keeps_config:
  assumes "apply_or_restore load (self, base) = Inr (self', base')"
  shows "enabled self' = enabled self \<and> alpha self' = alpha self"
proof (cases "live_model base")
  case None
  with assms show ?thesis by (simp add: apply_no_live)
next
  case (Some m)
  then have "sim base = Sim (Some m)" by (simp add: live_model_Some)
  from apply_live_Inr [OF this assms] show ?thesis by blast
qed


lemma set_enabled_cases:
  assumes "set_enabled load en (self, base) = Inr s'"
  shows "(en = enabled self \<and> s' = (self, base))
       \<or> (en \<noteq> enabled self \<and> apply_or_restore load (self\<lparr>enabled := en\<rparr>, base) = Inr s')"
  using assms by (simp add: set_enabled_def split: if_splits)

lemma set_enabled_enabled:
  assumes "set_enabled load en s = Inr s'"
  shows "enabled (fst s') = en"
proof -
  obtain self base where s: "s = (self, base)" by (cases s)
  obtain self' base' where s': "s' = (self', base')" by (cases s')
  from set_enabled_cases [of load en self base s'] assms s
  consider "en = enabled self" "s' = (self, base)"
    | "apply_or_restore load (self\<lparr>enabled := en\<rparr>, base) = Inr s'" by blast
  then show ?thesis
  proof cases
    case 1
    then show ?thesis by simp
  next
    case 2
    with s' apply_keeps_config [of load "self\<lparr>enabled := en\<rparr>" base self' base']
    show ?thesis by simp
  qed
qed






















text \<open>
  Claim C6. A second \<^verbatim>\<open>set_enabled(True)\<close> right after a completed first one returns
  the state of the first unchanged: the same scene graph with the same alphas, the same
  saved-alpha map and cache; the flag is already set, so nothing is done.
\<close>

theorem set_enabled_idempotent:
  assumes "set_enabled load True s = Inr s'"
  shows "set_enabled load True s' = Inr s' \<and> enabled (fst s')"
proof -
  from set_enabled_enabled [OF assms] have "enabled (fst s')" by simp
  then show ?thesis by (cases s') (simp add: set_enabled_def)
qed


subsection \<open>The effect of apply-or-restore on a live scene graph\<close>

lemma apply_with_ids:
  assumes "sim base = Sim (Some m)"
    and "get_enclosing_wall_geom_ids load (checked self m, base) = Inr (ids, self2)"
    and "list_all (\<lambda>gi. gi < ngeom m) ids"
  shows "apply_or_restore load (self, base) =
     Inr (self2\<lparr>saved_alpha :=
            (if ids = [] then saved_alpha self2
             else if enabled self then
               (\<lambda>g. case saved_alpha self2 g of Some v \<Rightarrow> Some v
                  | None \<Rightarrow> if g \<in> set ids then Some (geom_alpha m g) else None)
             else Map.empty)\<rparr>,
          base\<lparr>sim := Sim (Some (paint m ids (if enabled self then to_float32 (alpha self) else 1)))\<rparr>)"
proof -
  have b: "base\<lparr>sim := Sim (Some m)\<rparr> = base" using assms(1) by (cases base) simp
  show ?thesis
    by (simp add: apply_live [OF assms(1)] assms(2) save_originals_ok [OF assms(3)]
        write_alpha_ok [OF assms(3)] b)
qed

lemma checked_changed:
  "last_model_ptr self \<noteq> Some (ptr m) \<Longrightarrow>
   checked self m =
     self\<lparr>geom_ids := None, saved_alpha := Map.empty, last_model_ptr := Some (ptr m)\<rparr>"
  by (simp add: checked_def)

lemma checked_same: "last_model_ptr self = Some (ptr m) \<Longrightarrow> checked self m = self"
  by (simp add: checked_def)

text \<open>
  Claim C8. While the overlay is enabled: when the identity of the live scene graph
  differs from the token the wrapper last saw, the next apply-or-restore drops the cached
  geometry set and the saved-alpha map whatever they held, adopts the new token, resolves
  the set \<open>R\<close> on the new scene graph with the wall names of the current layout, saves
  the new graph's alphas of \<open>R\<close> and writes the overlay alpha, as the single-precision
  buffer stores it, to exactly the geometries of \<open>R\<close>; \<^verbatim>\<open>reset\<close> on the new environment ends in the same state whatever the token
  was.
\<close>

theorem identity_change_reresolves:
  assumes "sim base = Sim (Some m)" and "layout_id base = Some lid"
    and "load lid = Inr loaded" and "enabled self"
    and "R = match_geom_ids m (enclosing_wall_names loaded)"
    and "result =
      (self\<lparr>geom_ids := Some R,
            saved_alpha := (\<lambda>g. if g \<in> set R then Some (geom_alpha m g) else None),
            last_model_ptr := Some (ptr m)\<rparr>,
       base\<lparr>sim := Sim (Some (paint m R (to_float32 (alpha self))))\<rparr>)"
  shows "(last_model_ptr self \<noteq> Some (ptr m) \<longrightarrow>
            apply_or_restore load (self, base) = Inr result)
       \<and> reset load base (self, old_base) = Inr result"
proof -
  have fresh: "apply_or_restore load (c, base) = Inr result"
    if c: "checked c m =
        self\<lparr>geom_ids := None, saved_alpha := Map.empty, last_model_ptr := Some (ptr m)\<rparr>"
      and e: "enabled c" "alpha c = alpha self" for c
  proof -
    have g: "get_enclosing_wall_geom_ids load (checked c m, base) =
        Inr (R, self\<lparr>geom_ids := Some R, saved_alpha := Map.empty,
                       last_model_ptr := Some (ptr m)\<rparr>)"
      unfolding c assms(5)
      using get_ids_fresh [where load = load and lid = lid
          and self = "self\<lparr>geom_ids := None, saved_alpha := Map.empty,
                          last_model_ptr := Some (ptr m)\<rparr>", OF _ assms(1-3)]
      by simp
    have r: "list_all (\<lambda>gi. gi < ngeom m) R"
      unfolding assms(5) by (rule match_geom_ids_range)
    have "(if R = [] then Map.empty
           else (\<lambda>g. if g \<in> set R then Some (geom_alpha m g) else None))
        = (\<lambda>g. if g \<in> set R then Some (geom_alpha m g) else None)"
      by auto
    with e show ?thesis
      unfolding assms(6) by (simp add: apply_with_ids [OF assms(1) g r])
  qed
  have 1: "last_model_ptr self \<noteq> Some (ptr m) \<longrightarrow> apply_or_restore load (self, base) = Inr result"
    using fresh [of self] assms(4) by (simp add: checked_changed)
  have "checked (self\<lparr>geom_ids := None, saved_alpha := Map.empty, last_model_ptr := None\<rparr>) m
      = self\<lparr>geom_ids := None, saved_alpha := Map.empty, last_model_ptr := Some (ptr m)\<rparr>"
    by (simp add: checked_def)
  from fresh [OF this] assms(4) have 2: "reset load base (self, old_base) = Inr result"
    by (simp add: reset_def)
  from 1 2 show ?thesis by blast
qed

lemma paint_paint: "paint (paint m ids a) ids b = paint m ids b"
  by (simp add: paint_def fun_eq_iff)

text \<open>Apply-or-restore when the set it will use is known.\<close>

lemma apply_known:
  assumes "sim base = Sim (Some m)"
    and "get_enclosing_wall_geom_ids load (checked self m, base) = Inr (R, self2)"
    and "list_all (\<lambda>gi. gi < ngeom m) R"
  shows "\<exists>self'. apply_or_restore load (self, base) =
        Inr (self', base\<lparr>sim := Sim (Some (paint m R (if enabled self then to_float32 (alpha self) else 1)))\<rparr>)
      \<and> geom_ids self' = Some R \<and> last_model_ptr self' = Some (ptr m)
      \<and> enabled self' = enabled self \<and> alpha self' = alpha self"
proof -
  from assms(2) have "self2 = (checked self m)\<lparr>geom_ids := Some R\<rparr>"
    by (rule get_ids_shape(1))
  then show ?thesis
    by (simp add: apply_with_ids [OF assms])
qed

lemma get_ids_resolved:
  assumes "sim base = Sim (Some m)" and "layout_id base = Some lid"
    and "load lid = Inr loaded"
    and "geom_ids self = None \<or> last_model_ptr self \<noteq> Some (ptr m)
       \<or> geom_ids self = Some (match_geom_ids m (enclosing_wall_names loaded))"
  shows "\<exists>self2. get_enclosing_wall_geom_ids load (checked self m, base)
      = Inr (match_geom_ids m (enclosing_wall_names loaded), self2)"
proof (cases "geom_ids (checked self m)")
  case None
  from get_ids_fresh [where load = load and lid = lid, OF None assms(1-3)] show ?thesis by blast
next
  case (Some ids)
  then have "last_model_ptr self = Some (ptr m)" "geom_ids self = Some ids"
    by (auto simp: checked_def split: if_splits)
  with assms(4) have "geom_ids self = Some (match_geom_ids m (enclosing_wall_names loaded))"
    by simp
  with \<open>last_model_ptr self = Some (ptr m)\<close>
  have "geom_ids (checked self m) = Some (match_geom_ids m (enclosing_wall_names loaded))"
    by (simp add: checked_same)
  from get_ids_cached [OF this] show ?thesis by blast
qed

text \<open>
  Claim C4. On a live scene graph \<open>m\<close> with any alpha values, for a wrapper whose cache
  is absent, or belongs to another scene graph, or holds the resolved set \<open>R\<close>:
  \<^verbatim>\<open>set_enabled(True)\<close> followed by \<^verbatim>\<open>set_enabled(False)\<close> completes and leaves every
  geometry of \<open>R\<close> with alpha exactly 1, whatever its alpha in \<open>m\<close> was, and every other
  geometry with its alpha in \<open>m\<close>.
\<close>

theorem enable_disable_roundtrip:
  assumes "sim base = Sim (Some m)" and "layout_id base = Some lid"
    and "load lid = Inr loaded"
    and "geom_ids self = None \<or> last_model_ptr self \<noteq> Some (ptr m)
       \<or> geom_ids self = Some (match_geom_ids m (enclosing_wall_names loaded))"
    and "R = match_geom_ids m (enclosing_wall_names loaded)"
  shows "\<exists>s1 self2 m2.
      set_enabled load True (self, base) = Inr s1
    \<and> set_enabled load False s1 = Inr (self2, base\<lparr>sim := Sim (Some m2)\<rparr>)
    \<and> \<not> enabled self2 \<and> geom_ids self2 = Some R
    \<and> (\<forall>g\<in>set R. geom_alpha m2 g = 1)
    \<and> (\<forall>g. g \<notin> set R \<longrightarrow> geom_alpha m2 g = geom_alpha m g)"
proof -
  have r: "list_all (\<lambda>gi. gi < ngeom m) R"
    unfolding assms(5) by (rule match_geom_ids_range)
  have final: "\<exists>self2. set_enabled load False (c, b) = Inr (self2, base\<lparr>sim := Sim (Some (paint m R 1))\<rparr>)
      \<and> \<not> enabled self2 \<and> geom_ids self2 = Some R"
    if en: "enabled c" and b: "b = base\<lparr>sim := Sim (Some m1)\<rparr>" and m1: "paint m1 R 1 = paint m R 1"
      and n: "ngeom m1 = ngeom m"
      and g: "\<exists>c2. get_enclosing_wall_geom_ids load (checked (c\<lparr>enabled := False\<rparr>) m1, b) = Inr (R, c2)"
    for c b m1
  proof -
    from g obtain c2 where
      g': "get_enclosing_wall_geom_ids load (checked (c\<lparr>enabled := False\<rparr>) m1, b) = Inr (R, c2)" ..
    have s: "sim b = Sim (Some m1)" by (simp add: b)
    have r1: "list_all (\<lambda>gi. gi < ngeom m1) R" using r n by simp
    from apply_known [OF s g' r1] m1 en show ?thesis
      by (auto simp: set_enabled_def b)
  qed
  have b0: "base = base\<lparr>sim := Sim (Some m)\<rparr>" using assms(1) by (cases base) simp
  have p: "(\<forall>g\<in>set R. geom_alpha (paint m R 1) g = 1)
    \<and> (\<forall>g. g \<notin> set R \<longrightarrow> geom_alpha (paint m R 1) g = geom_alpha m g)"
    by simp
  show ?thesis
  proof (cases "enabled self")
    case True
    then have 1: "set_enabled load True (self, base) = Inr (self, base)"
      by (simp add: set_enabled_def)
    have "\<exists>c2. get_enclosing_wall_geom_ids load (checked (self\<lparr>enabled := False\<rparr>) m, base)
        = Inr (R, c2)"
      unfolding assms(5)
      using get_ids_resolved [where load = load and lid = lid
          and self = "self\<lparr>enabled := False\<rparr>", OF assms(1-3)] assms(4) by simp
    from final [OF True b0 refl refl this] obtain self2 where
      "set_enabled load False (self, base) = Inr (self2, base\<lparr>sim := Sim (Some (paint m R 1))\<rparr>)"
      "\<not> enabled self2" "geom_ids self2 = Some R" by blast
    with 1 p have "set_enabled load True (self, base) = Inr (self, base)
      \<and> set_enabled load False (self, base) = Inr (self2, base\<lparr>sim := Sim (Some (paint m R 1))\<rparr>)
      \<and> \<not> enabled self2 \<and> geom_ids self2 = Some R
      \<and> (\<forall>g\<in>set R. geom_alpha (paint m R 1) g = 1)
      \<and> (\<forall>g. g \<notin> set R \<longrightarrow> geom_alpha (paint m R 1) g = geom_alpha m g)"
      by simp
    then show ?thesis by blast
  next
    case False
    have "\<exists>c2. get_enclosing_wall_geom_ids load (checked (self\<lparr>enabled := True\<rparr>) m, base)
        = Inr (R, c2)"
      unfolding assms(5)
      using get_ids_resolved [where load = load and lid = lid
          and self = "self\<lparr>enabled := True\<rparr>", OF assms(1-3)] assms(4) by simp
    then obtain c2 where
      "get_enclosing_wall_geom_ids load (checked (self\<lparr>enabled := True\<rparr>) m, base)
        = Inr (R, c2)" ..
    from apply_known [OF assms(1) this r] obtain self1 where
      a: "apply_or_restore load (self\<lparr>enabled := True\<rparr>, base)
          = Inr (self1, base\<lparr>sim := Sim (Some (paint m R (to_float32 (alpha self))))\<rparr>)"
      and s1: "geom_ids self1 = Some R" "last_model_ptr self1 = Some (ptr m)" "enabled self1"
      by auto
    from a False have 1: "set_enabled load True (self, base)
        = Inr (self1, base\<lparr>sim := Sim (Some (paint m R (to_float32 (alpha self))))\<rparr>)"
      by (simp add: set_enabled_def)
    have "geom_ids (checked (self1\<lparr>enabled := False\<rparr>) (paint m R (to_float32 (alpha self)))) = Some R"
      using s1 by (simp add: checked_def)
    from get_ids_cached [OF this]
    have "\<exists>c2. get_enclosing_wall_geom_ids load
        (checked (self1\<lparr>enabled := False\<rparr>) (paint m R (to_float32 (alpha self))),
         base\<lparr>sim := Sim (Some (paint m R (to_float32 (alpha self))))\<rparr>) = Inr (R, c2)"
      by blast
    from final [OF s1(3) refl paint_paint _ this] obtain self2 where
      "set_enabled load False (self1, base\<lparr>sim := Sim (Some (paint m R (to_float32 (alpha self))))\<rparr>)
         = Inr (self2, base\<lparr>sim := Sim (Some (paint m R 1))\<rparr>)"
      "\<not> enabled self2" "geom_ids self2 = Some R" by auto
    with 1 p have "set_enabled load True (self, base)
         = Inr (self1, base\<lparr>sim := Sim (Some (paint m R (to_float32 (alpha self))))\<rparr>)
      \<and> set_enabled load False (self1, base\<lparr>sim := Sim (Some (paint m R (to_float32 (alpha self))))\<rparr>)
         = Inr (self2, base\<lparr>sim := Sim (Some (paint m R 1))\<rparr>)
      \<and> \<not> enabled self2 \<and> geom_ids self2 = Some R
      \<and> (\<forall>g\<in>set R. geom_alpha (paint m R 1) g = 1)
      \<and> (\<forall>g. g \<notin> set R \<longrightarrow> geom_alpha (paint m R 1) g = geom_alpha m g)"
      by simp
    then show ?thesis by blast
  qed
qed


subsection \<open>Sessions without a scene graph or without a layout id\<close>

lemma apply_no_layout:
  assumes "layout_id base = None" and "geom_ids self = None \<or> geom_ids self = Some []"
  shows "\<exists>self'. apply_or_restore load (self, base) = Inr (self', base)
      \<and> (geom_ids self' = None \<or> geom_ids self' = Some [])"
proof (cases "live_model base")
  case None
  with assms(2) show ?thesis by (simp add: apply_no_live)
next
  case (Some m)
  then have s: "sim base = Sim (Some m)" by (simp add: live_model_Some)
  then have b: "base\<lparr>sim := Sim (Some m)\<rparr> = base" by (cases base) simp
  from assms(2) have "geom_ids (checked self m) = None \<or> geom_ids (checked self m) = Some []"
    by (simp add: checked_def)
  then have "get_enclosing_wall_geom_ids load (checked self m, base)
      = Inr ([], (checked self m)\<lparr>geom_ids := Some []\<rparr>)"
  proof
    assume "geom_ids (checked self m) = None"
    then show ?thesis using assms(1) by (rule get_ids_no_layout)
  next
    assume c: "geom_ids (checked self m) = Some []"
    then have "(checked self m)\<lparr>geom_ids := Some []\<rparr> = checked self m"
      by (cases "checked self m") simp
    with get_ids_cached [OF c, of load base] show ?thesis by simp
  qed
  from apply_with_ids [OF s this] b show ?thesis by simp
qed

lemma set_enabled_no_layout:
  assumes "layout_id base = None" and "geom_ids self = None \<or> geom_ids self = Some []"
  shows "\<exists>self'. set_enabled load en (self, base) = Inr (self', base)
      \<and> (geom_ids self' = None \<or> geom_ids self' = Some [])"
proof (cases "en = enabled self")
  case True
  with assms(2) show ?thesis by (simp add: set_enabled_def)
next
  case False
  from assms(2) have "geom_ids (self\<lparr>enabled := en\<rparr>) = None
      \<or> geom_ids (self\<lparr>enabled := en\<rparr>) = Some []" by simp
  from apply_no_layout [OF assms(1) this, of load] False show ?thesis
    by (simp add: set_enabled_def)
qed

lemma reachable_no_layout:
  "reachable no_layout_env load s \<Longrightarrow>
     layout_id (snd s) = None \<and> (geom_ids (fst s) = None \<or> geom_ids (fst s) = Some [])"
proof (induction rule: reachable.induct)
  case (r_init base a en s)
  from r_init(1) have l: "layout_id base = None" by (simp add: no_layout_env_def)
  from set_enabled_no_layout [OF l, of "\<lparr>alpha = a, enabled = False, geom_ids = None,
      saved_alpha = Map.empty, last_model_ptr = None\<rparr>" load en] r_init(2) l
  show ?case by (auto simp: init_def)
next
  case (r_set_enabled s en s')
  then have "layout_id (snd s) = None" "geom_ids (fst s) = None \<or> geom_ids (fst s) = Some []"
    by simp_all
  from set_enabled_no_layout [OF this, of load en] r_set_enabled(2) this(1)
  show ?case by auto
next
  case (r_toggle s s')
  then have "layout_id (snd s) = None" "geom_ids (fst s) = None \<or> geom_ids (fst s) = Some []"
    by simp_all
  from set_enabled_no_layout [OF this, of load "\<not> enabled (fst s)"] r_toggle(2) this(1)
  show ?case by (auto simp: toggle_def)
next
  case (r_reset s base' s')
  from r_reset(2) have l: "layout_id base' = None" by (simp add: no_layout_env_def)
  from apply_no_layout [OF l, of "(fst s)\<lparr>geom_ids := None, saved_alpha := Map.empty,
      last_model_ptr := None\<rparr>" load] r_reset(3) l
  show ?case by (auto simp: reset_def Let_def split: if_splits)
next
  case (r_visualize s base' s')
  from r_visualize(2) have l: "layout_id base' = None" by (simp add: no_layout_env_def)
  from r_visualize have "geom_ids (fst s) = None \<or> geom_ids (fst s) = Some []" by simp
  from apply_no_layout [OF l this, of load] r_visualize(3) l
  show ?case by (auto simp: visualize_def)
qed

text \<open>
  Claim C9. Without a live scene graph (no \<^verbatim>\<open>sim\<close> attribute, \<^verbatim>\<open>sim\<close> or its model
  \<^verbatim>\<open>None\<close>), \<^verbatim>\<open>set_enabled\<close>, \<^verbatim>\<open>toggle\<close> and the apply-or-restore of \<^verbatim>\<open>visualize\<close>
  return normally with the environment as it was, from any wrapper state and with any
  loader. In a session whose environments never expose a layout id the same calls return
  normally from every reachable state and leave the environment, its scene graph
  included, unchanged, and the resolved geometry set is empty. The loader is arbitrary
  in both cases: it is never consulted.
\<close>

theorem missing_context_is_noop:
  "(live_model base = None \<longrightarrow>
      set_enabled load en (self, base) = Inr (self\<lparr>enabled := en\<rparr>, base)
    \<and> toggle load (self, base) = Inr (self\<lparr>enabled := \<not> enabled self\<rparr>, base)
    \<and> visualize load base (self, old_base) = Inr (self, base))
   \<and> (reachable no_layout_env load (self, base) \<longrightarrow>
      (\<exists>self'. set_enabled load en (self, base) = Inr (self', base))
    \<and> (\<exists>self'. toggle load (self, base) = Inr (self', base))
    \<and> (\<forall>base'. no_layout_env base' \<longrightarrow>
          (\<exists>self'. visualize load base' (self, base) = Inr (self', base')))
    \<and> (\<exists>self'. get_enclosing_wall_geom_ids load (self, base) = Inr ([], self')))"
proof (intro conjI impI allI)
  assume n: "live_model base = None"
  have e: "self\<lparr>enabled := enabled self\<rparr> = self" by simp
  show "set_enabled load en (self, base) = Inr (self\<lparr>enabled := en\<rparr>, base)"
    using n e by (auto simp: set_enabled_def apply_no_live)
  show "toggle load (self, base) = Inr (self\<lparr>enabled := \<not> enabled self\<rparr>, base)"
    using n by (simp add: toggle_def set_enabled_def apply_no_live)
  show "visualize load base (self, old_base) = Inr (self, base)"
    using n by (simp add: visualize_def apply_no_live)
next
  assume "reachable no_layout_env load (self, base)"
  from reachable_no_layout [OF this]
  have l: "layout_id base = None" and g: "geom_ids self = None \<or> geom_ids self = Some []"
    by simp_all
  from set_enabled_no_layout [OF l g]
  show "\<exists>self'. set_enabled load en (self, base) = Inr (self', base)" by blast
  from set_enabled_no_layout [OF l g, of load "\<not> enabled self"]
  show "\<exists>self'. toggle load (self, base) = Inr (self', base)"
    by (auto simp: toggle_def)
  from g show "\<exists>self'. get_enclosing_wall_geom_ids load (self, base) = Inr ([], self')"
    using get_ids_no_layout [OF _ l, of self load] get_ids_cached [of self "[]" load base]
    by auto
  fix base' assume "no_layout_env base'"
  then have "layout_id base' = None" by (simp add: no_layout_env_def)
  from apply_no_layout [OF this g]
  show "\<exists>self'. visualize load base' (self, base) = Inr (self', base')"
    by (auto simp: visualize_def)
qed

subsection \<open>The registry\<close>

text \<open>
  Claim C7. For every parsed layout the registry returns the names of exactly the wall
  records of \<^verbatim>\<open>room.walls\<close> whose \<^verbatim>\<open>enclosing_wall\<close> entry is \<^verbatim>\<open>True\<close>, in their order,
  where a missing document, room or wall collection counts as no wall; a flag that is
  truthy without being \<^verbatim>\<open>True\<close> does not select its wall; and for a layout with no wall
  flagged \<^verbatim>\<open>True\<close> the name list is empty and the geometry resolver returns the empty
  list, also when it is reached through \<^verbatim>\<open>_get_enclosing_wall_geom_ids\<close>.
\<close>

theorem registry_exact:
  "enclosing_wall_names loaded =
      map name (filter (\<lambda>w. enclosing_wall w = Some (YBool True)) (layout_walls loaded))
   \<and> (load lid = Inr loaded \<longrightarrow>
        get_enclosing_wall_names_from_layout load lid =
          Inr (map name (filter (\<lambda>w. enclosing_wall w = Some (YBool True)) (layout_walls loaded))))
   \<and> (\<forall>w\<in>set (layout_walls loaded). \<forall>v. enclosing_wall w = Some v \<and> truthy v \<and> v \<noteq> YBool True
        \<longrightarrow> \<not> flag_is_True w)
   \<and> ((\<forall>w\<in>set (layout_walls loaded). enclosing_wall w \<noteq> Some (YBool True)) \<longrightarrow>
        enclosing_wall_names loaded = []
      \<and> match_geom_ids m (enclosing_wall_names loaded) = []
      \<and> (load lid = Inr loaded \<and> sim base = Sim (Some m) \<and> layout_id base = Some lid
           \<and> geom_ids self = None \<longrightarrow>
          get_enclosing_wall_geom_ids load (self, base) = Inr ([], self\<lparr>geom_ids := Some []\<rparr>)))"
proof (intro conjI impI ballI allI)
  show 1: "enclosing_wall_names loaded =
      map name (filter (\<lambda>w. enclosing_wall w = Some (YBool True)) (layout_walls loaded))"
    by (rule enclosing_wall_names_eq)
  show "get_enclosing_wall_names_from_layout load lid =
      Inr (map name (filter (\<lambda>w. enclosing_wall w = Some (YBool True)) (layout_walls loaded)))"
    if "load lid = Inr loaded"
    using that by (simp add: get_enclosing_wall_names_from_layout_def enclosing_wall_names_eq)
  show "\<not> flag_is_True w" if "enclosing_wall w = Some v \<and> truthy v \<and> v \<noteq> YBool True" for w v
    using that by (simp add: flag_is_True_def or_default_def)
next
  assume z: "\<forall>w\<in>set (layout_walls loaded). enclosing_wall w \<noteq> Some (YBool True)"
  then have f: "filter (\<lambda>w. enclosing_wall w = Some (YBool True)) (layout_walls loaded) = []"
    by (simp add: filter_empty_conv)
  then show e: "enclosing_wall_names loaded = []"
    by (simp add: enclosing_wall_names_eq)
  then show r: "match_geom_ids m (enclosing_wall_names loaded) = []"
    by (simp add: match_geom_ids_def)
  show "get_enclosing_wall_geom_ids load (self, base) = Inr ([], self\<lparr>geom_ids := Some []\<rparr>)"
    if "load lid = Inr loaded \<and> sim base = Sim (Some m) \<and> layout_id base = Some lid
           \<and> geom_ids self = None"
    using that r get_ids_fresh [where load = load and lid = lid and self = self and base = base
        and m = m and loaded = loaded]
    by simp
qed

section \<open>Properties of the hotkey consumer\<close>

lemma on_wrapper_set_enabled:
  assumes "on_wrapper (set_enabled load en) ss = Inr ss1"
  shows "force_enclosing_walls_opaque ss1 = force_enclosing_walls_opaque ss
    \<and> toggle_enclosing_walls ss1 = toggle_enclosing_walls ss
    \<and> (\<forall>w. found_wrapper ss1 = Some w \<longrightarrow> enabled w = en)"
proof (cases "found_wrapper ss")
  case None
  with assms show ?thesis by (simp add: on_wrapper_def)
next
  case (Some w)
  with assms obtain w' b' where
    r: "set_enabled load en (w, base_env ss) = Inr (w', b')"
    and s: "ss1 = ss\<lparr>found_wrapper := Some w', base_env := b'\<rparr>"
    by (auto simp: on_wrapper_def split: sum.splits)
  from set_enabled_enabled [OF r] s show ?thesis by simp
qed

lemma refresh_keeps:
  assumes "refresh_visualization_and_redraw load vis ss = Inr ss'"
  shows "force_enclosing_walls_opaque ss' = force_enclosing_walls_opaque ss
    \<and> toggle_enclosing_walls ss' = toggle_enclosing_walls ss
    \<and> (\<forall>w'. found_wrapper ss' = Some w' \<longrightarrow>
          (\<exists>w. found_wrapper ss = Some w \<and> enabled w' = enabled w))"
proof (cases vis)
  case None
  with assms show ?thesis by (simp add: refresh_visualization_and_redraw_def)
next
  case (Some base')
  show ?thesis
  proof (cases "found_wrapper ss")
    case None
    with Some assms show ?thesis by (auto simp: refresh_visualization_and_redraw_def)
  next
    case w: (Some w)
    with Some assms obtain w' b' where
      r: "apply_or_restore load (w, base') = Inr (w', b')"
      and s: "ss' = ss\<lparr>found_wrapper := Some w', base_env := b'\<rparr>"
      by (auto simp: refresh_visualization_and_redraw_def visualize_def split: sum.splits)
    from apply_keeps_config [OF r] s w show ?thesis by simp
  qed
qed

text \<open>
  Claim C5. With both request flags set, every \<^verbatim>\<open>consume_pending\<close> that returns
  returns \<^verbatim>\<open>True\<close> with both flags cleared and the overlay, if there is a wrapper,
  disabled; the toggle request plays no part (any other value of the toggle flag gives
  the same outcome); the call can only fail by an exception of the wrapper's
  \<^verbatim>\<open>set_enabled(False)\<close> or of the re-pushed \<^verbatim>\<open>visualize\<close>; and releasing the two keys
  in either order leaves the same session, with both flags set.
\<close>

theorem force_opaque_wins:
  assumes "force_enclosing_walls_opaque ss = Some True"
    and "toggle_enclosing_walls ss = Some True"
  shows "(\<forall>r ss'. consume_pending load vis ss = Inr (r, ss') \<longrightarrow>
            r \<and> force_enclosing_walls_opaque ss' = Some False
              \<and> toggle_enclosing_walls ss' = Some False
              \<and> (\<forall>w. found_wrapper ss' = Some w \<longrightarrow> \<not> enabled w))
    \<and> consume_pending load vis (ss\<lparr>toggle_enclosing_walls := t\<rparr>) = consume_pending load vis ss
    \<and> (\<forall>e. consume_pending load vis ss = Inl e \<longrightarrow>
          (\<exists>w. found_wrapper ss = Some w \<and>
             (set_enabled load False (w, base_env ss) = Inl e
              \<or> (\<exists>s1 base'. set_enabled load False (w, base_env ss) = Inr s1
                    \<and> vis = Some base' \<and> visualize load base' s1 = Inl e))))
    \<and> on_release Esc (on_release (CharKey CHR ''['') ss0)
        = on_release (CharKey CHR ''['') (on_release Esc ss0)
    \<and> force_enclosing_walls_opaque (on_release Esc (on_release (CharKey CHR ''['') ss0)) = Some True
    \<and> toggle_enclosing_walls (on_release Esc (on_release (CharKey CHR ''['') ss0)) = Some True"
proof (intro conjI allI impI)
  have c: "consume_pending load vis ss =
      (case on_wrapper (set_enabled load False) ss of
         Inl e \<Rightarrow> Inl e
       | Inr ss1 \<Rightarrow>
           (case refresh_visualization_and_redraw load vis
                   (ss1\<lparr>force_enclosing_walls_opaque := Some False,
                        toggle_enclosing_walls := Some False\<rparr>) of
              Inl e \<Rightarrow> Inl e
            | Inr ss2 \<Rightarrow> Inr (True, ss2)))"
    using assms by (simp add: consume_pending_def or_default_def)
  {
    fix r ss' assume "consume_pending load vis ss = Inr (r, ss')"
    with c obtain ss1 where
      1: "on_wrapper (set_enabled load False) ss = Inr ss1"
      and 2: "refresh_visualization_and_redraw load vis
                   (ss1\<lparr>force_enclosing_walls_opaque := Some False,
                        toggle_enclosing_walls := Some False\<rparr>) = Inr ss'"
      and r: "r"
      by (auto split: sum.splits)
    from on_wrapper_set_enabled [OF 1] refresh_keeps [OF 2]
    have "force_enclosing_walls_opaque ss' = Some False \<and> toggle_enclosing_walls ss' = Some False
        \<and> (\<forall>w. found_wrapper ss' = Some w \<longrightarrow> \<not> enabled w)"
      by auto
    with r show r and "force_enclosing_walls_opaque ss' = Some False"
      and "toggle_enclosing_walls ss' = Some False" by simp_all
    fix w assume "found_wrapper ss' = Some w"
    with \<open>force_enclosing_walls_opaque ss' = Some False \<and> toggle_enclosing_walls ss' = Some False
        \<and> (\<forall>w. found_wrapper ss' = Some w \<longrightarrow> \<not> enabled w)\<close>
    show "\<not> enabled w" by simp
  }
  show "consume_pending load vis (ss\<lparr>toggle_enclosing_walls := t\<rparr>) = consume_pending load vis ss"
    using assms(1)
    by (simp add: consume_pending_def or_default_def on_wrapper_def split: option.splits sum.splits)
  {
    fix e assume "consume_pending load vis ss = Inl e"
    with c show "\<exists>w. found_wrapper ss = Some w \<and>
             (set_enabled load False (w, base_env ss) = Inl e
              \<or> (\<exists>s1 base'. set_enabled load False (w, base_env ss) = Inr s1
                    \<and> vis = Some base' \<and> visualize load base' s1 = Inl e))"
      by (auto simp: on_wrapper_def refresh_visualization_and_redraw_def
          split: sum.splits option.splits)
  }
  show "on_release Esc (on_release (CharKey CHR ''['') ss0)
        = on_release (CharKey CHR ''['') (on_release Esc ss0)"
    by simp
  show "force_enclosing_walls_opaque (on_release Esc (on_release (CharKey CHR ''['') ss0)) = Some True"
    by simp
  show "toggle_enclosing_walls (on_release Esc (on_release (CharKey CHR ''['') ss0)) = Some True"
    by simp
qed


section \<open>The example session\<close>

lemma ex_names: "enclosing_wall_names example_layout = [''wall'']"
  by (simp add: enclosing_wall_names_def example_layout_def or_default_def flag_is_True_def)

lemma ex_resolved: "match_geom_ids nested_scene [''wall''] = [1, 2, 3]"
  by (simp add: match_geom_ids_def match_body_ids_def nested_scene_def name_matches_def
      startswith_def endswith_def add_descendants.simps upt_rec Let_def)

lemma ex_env: "sim example_env = Sim (Some nested_scene)" "layout_id example_env = Some 0"
  "example_loader 0 = Inr example_layout" "ptr nested_scene = 1" "ngeom nested_scene = 4"
  by (simp_all add: example_env_def example_loader_def nested_scene_def)

lemma ex_get:
  "geom_ids self = None \<Longrightarrow>
   get_enclosing_wall_geom_ids example_loader (self, example_env)
     = Inr ([1, 2, 3], self\<lparr>geom_ids := Some [1, 2, 3]\<rparr>)"
  using get_ids_fresh [where load = example_loader and lid = 0 and self = self,
      OF _ ex_env(1-3)]
  by (simp add: ex_names ex_resolved)

lemma ex_enable:
  "set_enabled example_loader True (default_wrapper, example_env)
     = Inr (overlay_wrapper, overlay_env)"
proof -
  have c: "checked (default_wrapper\<lparr>enabled := True\<rparr>) nested_scene
      = default_wrapper\<lparr>enabled := True, last_model_ptr := Some 1\<rparr>"
    by (simp add: checked_def default_wrapper_def ex_env)
  have g: "get_enclosing_wall_geom_ids example_loader
        (checked (default_wrapper\<lparr>enabled := True\<rparr>) nested_scene, example_env)
      = Inr ([1, 2, 3], default_wrapper\<lparr>enabled := True, last_model_ptr := Some 1,
                           geom_ids := Some [1, 2, 3]\<rparr>)"
    unfolding c by (rule ex_get) (simp add: default_wrapper_def)
  have r: "list_all (\<lambda>gi. gi < ngeom nested_scene) [1, 2, 3]"
    by (simp add: ex_env)
  have "apply_or_restore example_loader (default_wrapper\<lparr>enabled := True\<rparr>, example_env)
      = Inr (overlay_wrapper, overlay_env)"
    unfolding apply_with_ids [OF ex_env(1) g r]
    by (simp add: default_wrapper_def overlay_wrapper_def overlay_env_def example_env_def)
  then show ?thesis
    by (simp add: set_enabled_def default_wrapper_def)
qed

lemma ex_disable:
  "set_enabled example_loader False (overlay_wrapper, overlay_env)
     = Inr (restored_wrapper, restored_env)"
proof -
  let ?m = "paint nested_scene [1, 2, 3] (to_float32 (1 / 10))"
  have s: "sim overlay_env = Sim (Some ?m)" by (simp add: overlay_env_def)
  have c: "checked (overlay_wrapper\<lparr>enabled := False\<rparr>) ?m = overlay_wrapper\<lparr>enabled := False\<rparr>"
    by (simp add: checked_def overlay_wrapper_def ex_env)
  have g: "get_enclosing_wall_geom_ids example_loader
        (checked (overlay_wrapper\<lparr>enabled := False\<rparr>) ?m, overlay_env)
      = Inr ([1, 2, 3], overlay_wrapper\<lparr>enabled := False\<rparr>)"
    unfolding c by (rule get_ids_cached) (simp add: overlay_wrapper_def)
  have r: "list_all (\<lambda>gi. gi < ngeom ?m) [1, 2, 3]"
    by (simp add: ex_env)
  have "apply_or_restore example_loader (overlay_wrapper\<lparr>enabled := False\<rparr>, overlay_env)
      = Inr (restored_wrapper, restored_env)"
    unfolding apply_with_ids [OF s g r]
    by (simp add: overlay_wrapper_def restored_wrapper_def overlay_env_def restored_env_def
        paint_paint)
  then show ?thesis
    by (simp add: set_enabled_def overlay_wrapper_def)
qed







theorem set_enabled_idempotent_witness:
  "set_enabled example_loader True (default_wrapper, example_env) = Inr (overlay_wrapper, overlay_env)
   \<and> set_enabled example_loader True (overlay_wrapper, overlay_env)
       = Inr (overlay_wrapper, overlay_env)"
  using set_enabled_idempotent [OF ex_enable] ex_enable by simp

theorem enable_disable_roundtrip_witness:
  "\<exists>s1 self2 m2.
      set_enabled example_loader True (default_wrapper, example_env) = Inr s1
    \<and> set_enabled example_loader False s1 = Inr (self2, example_env\<lparr>sim := Sim (Some m2)\<rparr>)
    \<and> geom_alpha m2 2 = 1 \<and> geom_alpha nested_scene 2 = 1 / 4"
proof -
  have c: "geom_ids default_wrapper = None
     \<or> last_model_ptr default_wrapper \<noteq> Some (ptr nested_scene)
     \<or> geom_ids default_wrapper
         = Some (match_geom_ids nested_scene (enclosing_wall_names example_layout))"
    by (simp add: default_wrapper_def)
  have R: "[1, 2, 3] = match_geom_ids nested_scene (enclosing_wall_names example_layout)"
    by (simp add: ex_names ex_resolved)
  from enable_disable_roundtrip [where load = example_loader and lid = 0,
      OF ex_env(1) ex_env(2) ex_env(3) c R]
  obtain s1 self2 m2 where
    "set_enabled example_loader True (default_wrapper, example_env) = Inr s1"
    "set_enabled example_loader False s1 = Inr (self2, example_env\<lparr>sim := Sim (Some m2)\<rparr>)"
    "\<forall>g\<in>set [1, 2, 3]. geom_alpha m2 g = 1"
    by blast
  moreover have "geom_alpha nested_scene 2 = 1 / 4" by (simp add: nested_scene_def)
  ultimately show ?thesis by auto
qed

theorem identity_change_reresolves_witness:
  "last_model_ptr stale_wrapper \<noteq> Some (ptr nested_scene)
   \<and> geom_ids stale_wrapper = Some [7, 9]
   \<and> apply_or_restore example_loader (stale_wrapper, example_env)
       = Inr (overlay_wrapper, overlay_env)"
proof -
  have p: "last_model_ptr stale_wrapper \<noteq> Some (ptr nested_scene)"
    and e: "enabled stale_wrapper" and g: "geom_ids stale_wrapper = Some [7, 9]"
    by (simp_all add: stale_wrapper_def ex_env)
  have R: "[1, 2, 3] = match_geom_ids nested_scene (enclosing_wall_names example_layout)"
    by (simp add: ex_names ex_resolved)
  have res: "(overlay_wrapper, overlay_env) =
      (stale_wrapper\<lparr>geom_ids := Some [1, 2, 3],
            saved_alpha := (\<lambda>g. if g \<in> set [1, 2, 3] then Some (geom_alpha nested_scene g) else None),
            last_model_ptr := Some (ptr nested_scene)\<rparr>,
       example_env\<lparr>sim := Sim (Some (paint nested_scene [1, 2, 3] (to_float32 (alpha stale_wrapper))))\<rparr>)"
    by (simp add: overlay_wrapper_def overlay_env_def stale_wrapper_def example_env_def ex_env)
  from identity_change_reresolves [where load = example_loader and lid = 0
      and old_base = example_env, OF ex_env(1) ex_env(2) ex_env(3) e R res] p
  have "apply_or_restore example_loader (stale_wrapper, example_env)
       = Inr (overlay_wrapper, overlay_env)" by simp
  with p g show ?thesis by simp
qed

theorem missing_context_is_noop_witness:
  "live_model bare_env = None
   \<and> set_enabled failing_loader True (default_wrapper, bare_env)
       = Inr (default_wrapper\<lparr>enabled := True\<rparr>, bare_env)
   \<and> reachable no_layout_env failing_loader (default_wrapper, unlaid_env)
   \<and> no_layout_env unlaid_env
   \<and> (\<exists>self'. toggle failing_loader (default_wrapper, unlaid_env) = Inr (self', unlaid_env))
   \<and> (\<exists>self'. visualize failing_loader unlaid_env (default_wrapper, unlaid_env)
         = Inr (self', unlaid_env))"
proof -
  have n: "live_model bare_env = None" by (simp add: live_model_def bare_env_def)
  have u: "no_layout_env unlaid_env" by (simp add: no_layout_env_def unlaid_env_def)
  have "init failing_loader unlaid_env (1 / 10) False = Inr (default_wrapper, unlaid_env)"
    by (simp add: init_def set_enabled_def default_wrapper_def)
  with u have r: "reachable no_layout_env failing_loader (default_wrapper, unlaid_env)"
    by (rule reachable.r_init)
  note T1 = missing_context_is_noop [where base = bare_env and self = default_wrapper
      and load = failing_loader and en = True and old_base = bare_env]
  note T2 = missing_context_is_noop [where base = unlaid_env and self = default_wrapper
      and load = failing_loader and en = True and old_base = bare_env]
  from T1 [THEN conjunct1] n
  have 1: "set_enabled failing_loader True (default_wrapper, bare_env)
       = Inr (default_wrapper\<lparr>enabled := True\<rparr>, bare_env)" by simp
  from T2 [THEN conjunct2] r u
  have 2: "(\<exists>self'. toggle failing_loader (default_wrapper, unlaid_env) = Inr (self', unlaid_env))"
    and 3: "(\<exists>self'. visualize failing_loader unlaid_env (default_wrapper, unlaid_env)
         = Inr (self', unlaid_env))"
    by blast+
  from n 1 r u 2 3 show ?thesis by blast
qed

theorem registry_exact_witness:
  "enclosing_wall_names example_layout = [''wall'']
   \<and> get_enclosing_wall_names_from_layout example_loader 0 = Inr [''wall'']
   \<and> \<not> flag_is_True \<lparr>name = ''deco'', enclosing_wall = Some (YInt 1)\<rparr>
   \<and> match_geom_ids nested_scene (enclosing_wall_names plain_layout) = []
   \<and> match_geom_ids nested_scene [''wall''] = [1, 2, 3]"
proof -
  have w: "layout_walls example_layout =
     [\<lparr>name = ''wall'', enclosing_wall = Some (YBool True)\<rparr>,
      \<lparr>name = ''deco'', enclosing_wall = Some (YInt 1)\<rparr>,
      \<lparr>name = ''panel'', enclosing_wall = Some (YStr ''true'')\<rparr>,
      \<lparr>name = ''floor'', enclosing_wall = None\<rparr>]"
    by (simp add: layout_walls_def example_layout_def)
  have f: "map name (filter (\<lambda>w. enclosing_wall w = Some (YBool True))
      (layout_walls example_layout)) = [''wall'']"
    unfolding w by simp
  note T = registry_exact [where loaded = example_layout and load = example_loader and lid = 0
      and m = nested_scene and base = example_env and self = default_wrapper]
  from T [THEN conjunct1] f have 1: "enclosing_wall_names example_layout = [''wall'']"
    by simp
  from T [THEN conjunct2, THEN conjunct1] f ex_env(3)
  have 2: "get_enclosing_wall_names_from_layout example_loader 0 = Inr [''wall'']"
    by simp
  have d: "\<lparr>name = ''deco'', enclosing_wall = Some (YInt 1)\<rparr> \<in> set (layout_walls example_layout)"
    unfolding w by simp
  have 3: "\<not> flag_is_True \<lparr>name = ''deco'', enclosing_wall = Some (YInt 1)\<rparr>"
    by (rule T [THEN conjunct2, THEN conjunct2, THEN conjunct1, rule_format, OF d,
          where v = "YInt 1"]) simp
  have z: "\<forall>w\<in>set (layout_walls plain_layout). enclosing_wall w \<noteq> Some (YBool True)"
    by (simp add: layout_walls_def plain_layout_def)
  note P = registry_exact [where loaded = plain_layout and load = plain_loader and lid = 0
      and m = nested_scene and base = example_env and self = default_wrapper]
  from P [THEN conjunct2, THEN conjunct2, THEN conjunct2] z
  have 4: "match_geom_ids nested_scene (enclosing_wall_names plain_layout) = []"
    by blast
  from 1 2 3 4 ex_resolved show ?thesis by simp
qed

theorem force_opaque_wins_witness:
  "force_enclosing_walls_opaque pending_session = Some True
   \<and> toggle_enclosing_walls pending_session = Some True
   \<and> consume_pending example_loader None pending_session
       = Inr (True, \<lparr>force_enclosing_walls_opaque = Some False,
            toggle_enclosing_walls = Some False, found_wrapper = Some restored_wrapper,
            base_env = restored_env\<rparr>)
   \<and> \<not> enabled restored_wrapper"
proof -
  have f: "force_enclosing_walls_opaque pending_session = Some True"
    and t: "toggle_enclosing_walls pending_session = Some True"
    by (simp_all add: pending_session_def)
  have c: "consume_pending example_loader None pending_session
       = Inr (True, \<lparr>force_enclosing_walls_opaque = Some False,
            toggle_enclosing_walls = Some False, found_wrapper = Some restored_wrapper,
            base_env = restored_env\<rparr>)"
    by (simp add: consume_pending_def or_default_def on_wrapper_def pending_session_def
        refresh_visualization_and_redraw_def ex_disable)
  from force_opaque_wins [OF f t, of example_loader None, THEN conjunct1, rule_format, OF c]
  have "\<not> enabled restored_wrapper" by simp
  with f t c show ?thesis by simp
qed

end
